theory Spec2Isabelle
  imports Main "HOL-Library.Word" "HOL-Library.Monad_Syntax"
begin

unbundle bit_operations_syntax

section \<open>The PS/2 bus engine of the USB keyboard adapter\<close>

text \<open>
  The program is the interrupt driven variant of the adapter sketch (the file with
  \<^verbatim>\<open>PS2clk_change_isr\<close>, \<^verbatim>\<open>parsePS2cmd\<close> and \<^verbatim>\<open>loop\<close>). Its globals become one
  record, its functions take the record and return it updated. What the program reads from
  the outside (pin levels, the millisecond clock, clock edge interrupts, key events) is
  input of the model; what it drives on the two bus output pins is recorded, in order, in
  the field \<open>wire\<close>.
\<close>

subsection \<open>Types, pins and constants\<close>

type_synonym uint8 = "8 word"
type_synonym uint32 = "32 word"

text \<open>Arduino pin levels: \<^verbatim>\<open>LOW\<close> is 0 and \<^verbatim>\<open>HIGH\<close> is 1.\<close>

datatype level = LOW | HIGH

datatype outPin = PS2clkOutPin | PS2dataOutPin

datatype inPin = PS2clkInPin | PS2dataInPin

text \<open>
  The levels of the two bus lines as the input pins see them at one instant; every
  \<^verbatim>\<open>digitalRead\<close> of the main program consumes one such sample.
\<close>

datatype lines = Lines (clkLine: level) (dataLine: level)

text \<open>What the main program does to the bus: busy delays and writes to the output pins.\<close>

datatype action =
    DelayMicroseconds uint32
  | Delay uint32
  | DigitalWrite outPin level

text \<open>
  The output levels are inverted: writing 1 switches the NPN transistor on, which pulls
  the bus line low.
\<close>

definition PS2busOutLOW :: level where "PS2busOutLOW = HIGH"
definition PS2busOutHIGH :: level where "PS2busOutHIGH = LOW"

definition nClk_nData :: uint8 where "nClk_nData = 0x00"
definition Clk_nData :: uint8 where "Clk_nData = 0x01"
definition nClk_Data :: uint8 where "nClk_Data = 0x02"
definition Clk_Data :: uint8 where "Clk_Data = 0x03"

definition setStatusCmd :: uint8 where "setStatusCmd = 0xED"
definition diagnosticCmd :: uint8 where "diagnosticCmd = 0xEE"
definition set_getScancode :: uint8 where "set_getScancode = 0xF0"
definition readIdCmd :: uint8 where "readIdCmd = 0xF2"
definition repeatRateCmd :: uint8 where "repeatRateCmd = 0xF3"
definition resendCmd :: uint8 where "resendCmd = 0xFE"
definition resetKeybCmd :: uint8 where "resetKeybCmd = 0xFF"

definition ackResponse :: uint8 where "ackResponse = 0xFA"
definition readIdByte1 :: uint8 where "readIdByte1 = 0xAB"
definition readIdByte2 :: uint8 where "readIdByte2 = 0x83"
definition selfTestOk :: uint8 where "selfTestOk = 0xAA"
definition scanCodeVal :: uint8 where "scanCodeVal = 0x41"

definition repeatKeyInterval :: uint32 where "repeatKeyInterval = 270"
definition makeBreakPS2delay :: uint32 where "makeBreakPS2delay = 40"
definition delayBeforeRxPS2cmd :: uint32 where "delayBeforeRxPS2cmd = 640"
definition ackResponseDelay :: uint32 where "ackResponseDelay = 700"
definition keyboardResetDelay :: uint32 where "keyboardResetDelay = 400000"
definition PS2cmdResponseDelay :: uint32 where "PS2cmdResponseDelay = 950"
definition PS2scanCodeDelay :: uint32 where "PS2scanCodeDelay = 1500"

definition clkBitTime :: uint32 where "clkBitTime = 40"
definition clkLowBitTime :: uint32 where "clkLowBitTime = clkBitTime - 10"
definition clkHighBitTime :: uint32 where "clkHighBitTime = 40"
definition clkHalfBitTime :: uint32 where "clkHalfBitTime = 20"

subsection \<open>The state of the device\<close>

record device =
  gotMakeKey :: bool
  keyPressedTime :: uint32
  PS2cmd :: uint8
  lastPS2cmd :: uint8
  repeatRate :: uint8
  keyboardStatus :: uint8
  setScanCodeVal :: uint8
  lastUSBkeycode :: uint8
  PS2cmdReady :: bool
  greenLedPin :: level
  intrTestPin :: level
  pins :: "lines list"
  wire :: "action list"

definition emit :: "action list \<Rightarrow> device \<Rightarrow> device" where
  "emit as s = s\<lparr>wire := wire s @ as\<rparr>"

text \<open>
  A read of an input pin takes the next sample. When the samples are used up the
  observation of the bus has ended and the program has not come further: \<open>None\<close>.
\<close>

definition digitalRead :: "inPin \<Rightarrow> device \<Rightarrow> (level \<times> device) option" where
  "digitalRead pin s =
     (case pins s of
        [] \<Rightarrow> None
      | b # bs \<Rightarrow>
          Some (case pin of PS2clkInPin \<Rightarrow> clkLine b | PS2dataInPin \<Rightarrow> dataLine b,
                s\<lparr>pins := bs\<rparr>))"

subsection \<open>Bus sampler\<close>

definition readPS2bus :: "device \<Rightarrow> (uint8 \<times> device) option" where
  "readPS2bus s =
     do {
       (d, s1) \<leftarrow> digitalRead PS2dataInPin s;
       (c, s2) \<leftarrow> digitalRead PS2clkInPin s1;
       let busByte = 0;
       let busByte = (if d = HIGH then busByte OR nClk_Data else busByte);
       let busByte = (if c = HIGH then busByte OR Clk_nData else busByte);
       Some (busByte, s2)
     }"

subsection \<open>Frame transmitter\<close>

text \<open>The busy wait \<^verbatim>\<open>while (readPS2bus() != Clk_Data);\<close>.\<close>

function waitClkData :: "device \<Rightarrow> device option" where
  "waitClkData s =
     (case readPS2bus s of
        None \<Rightarrow> None
      | Some (b, s1) \<Rightarrow> if b \<noteq> Clk_Data then waitClkData s1 else Some s1)"
  by pat_completeness auto
termination
  by (relation "measure (\<lambda>s. length (pins s))")
     (auto simp: readPS2bus_def digitalRead_def Let_def split: list.splits Option.bind_splits)

text \<open>The loop over the eight data bits, least significant first, counting the ones.\<close>

function sendDataBits :: "uint8 \<Rightarrow> nat \<Rightarrow> uint8 \<Rightarrow> device \<Rightarrow> uint8 \<times> device" where
  "sendDataBits outByte i trueBitCnt s =
     (if i < 8 then
        let s = emit [DelayMicroseconds (clkHalfBitTime - 7)] s;
            (trueBitCnt, s) =
              (if (drop_bit i outByte) AND 0x01 \<noteq> 0
               then (trueBitCnt + 1, emit [DigitalWrite PS2dataOutPin PS2busOutHIGH] s)
               else (trueBitCnt, emit [DigitalWrite PS2dataOutPin PS2busOutLOW] s));
            s = emit [DelayMicroseconds (clkHalfBitTime + 3),
                      DigitalWrite PS2clkOutPin PS2busOutLOW,
                      DelayMicroseconds (clkLowBitTime - 4),
                      DigitalWrite PS2clkOutPin PS2busOutHIGH] s
        in sendDataBits outByte (i + 1) trueBitCnt s
      else (trueBitCnt, s))"
  by pat_completeness auto
termination
  by (relation "measure (\<lambda>(outByte, i, trueBitCnt, s). 8 - i)") auto

definition sendPS2byte :: "uint8 \<Rightarrow> uint32 \<Rightarrow> device \<Rightarrow> device option" where
  "sendPS2byte outbyte beforeDelay s =
     do {
       let outByte = outbyte;
       let trueBitCnt = 0;
       let s = emit [DelayMicroseconds beforeDelay] s;
       s \<leftarrow> waitClkData s;
       let s = emit [DigitalWrite PS2dataOutPin PS2busOutLOW,
                     DelayMicroseconds clkHalfBitTime,
                     DigitalWrite PS2clkOutPin PS2busOutLOW,
                     DelayMicroseconds clkLowBitTime,
                     DigitalWrite PS2clkOutPin PS2busOutHIGH] s;
       let (trueBitCnt, s) = sendDataBits outByte 0 trueBitCnt s;
       let s = emit [DelayMicroseconds clkHalfBitTime] s;
       let s = (if trueBitCnt AND 0x01 = 0
                then emit [DigitalWrite PS2dataOutPin PS2busOutHIGH] s
                else emit [DigitalWrite PS2dataOutPin PS2busOutLOW] s);
       let s = emit [DelayMicroseconds clkHalfBitTime,
                     DigitalWrite PS2clkOutPin PS2busOutLOW,
                     DelayMicroseconds clkLowBitTime,
                     DigitalWrite PS2clkOutPin PS2busOutHIGH,
                     DelayMicroseconds clkHalfBitTime,
                     DigitalWrite PS2dataOutPin PS2busOutHIGH,
                     DelayMicroseconds clkHalfBitTime,
                     DigitalWrite PS2clkOutPin PS2busOutLOW,
                     DelayMicroseconds clkLowBitTime,
                     DigitalWrite PS2clkOutPin PS2busOutHIGH] s;
       Some s
     }"


text \<open>Scan codes are sent with the fixed delay \<^verbatim>\<open>PS2scanCodeDelay\<close> ahead.\<close>

definition sendPS2scanbyte :: "uint8 \<Rightarrow> device \<Rightarrow> device option" where
  "sendPS2scanbyte outbyte s = sendPS2byte outbyte PS2scanCodeDelay s"

subsection \<open>Key event translator\<close>

text \<open>
  The conversion tables live in the header \<^verbatim>\<open>USBtoPS2_conversion_table.h\<close>, which is not
  part of the sources at hand. They are a parameter of the model: the two-column table
  indexed by the USB keycode (one row for every keycode) and the three fixed sequences for
  Pause and PrintScreen, indexed from 0.
\<close>

record tables =
  USBtoPS2scanSet2 :: "uint8 \<Rightarrow> nat \<Rightarrow> uint8"
  PrtPauseMake :: "nat \<Rightarrow> uint8"
  PrtScrMake :: "nat \<Rightarrow> uint8"
  PrtScrBreak :: "nat \<Rightarrow> uint8"

text \<open>The statement \<^verbatim>\<open>for (int i=0; i < n; i++) { sendPS2scanbyte(arr[i]); }\<close>.\<close>

function sendSequence :: "(nat \<Rightarrow> uint8) \<Rightarrow> nat \<Rightarrow> nat \<Rightarrow> device \<Rightarrow> device option" where
  "sendSequence arr n i s =
     (if i < n then
        (case sendPS2scanbyte (arr i) s of
           None \<Rightarrow> None
         | Some s \<Rightarrow> sendSequence arr n (i + 1) s)
      else Some s)"
  by pat_completeness auto
termination
  by (relation "measure (\<lambda>(arr, n, i, s). n - i)") auto

text \<open>
  The \<^verbatim>\<open>switch (mod)\<close> over the single modifier bit that was masked out (the variable
  is \<open>mod1\<close> here, \<open>mod\<close> being an operator of HOL).
\<close>

definition sendModifier :: "uint8 \<Rightarrow> uint8 \<Rightarrow> device \<Rightarrow> device option" where
  "sendModifier makeBreak mod1 s =
     (if mod1 = 0x01 then
        do {
          s \<leftarrow> (if makeBreak = 0 then sendPS2scanbyte 0xF0 s else Some s);
          sendPS2scanbyte 0x14 s
        }
      else if mod1 = 0x02 then
        do {
          s \<leftarrow> (if makeBreak = 0 then sendPS2scanbyte 0xF0 s else Some s);
          sendPS2scanbyte 0x12 s
        }
      else if mod1 = 0x04 then
        do {
          s \<leftarrow> (if makeBreak = 0 then sendPS2scanbyte 0xF0 s else Some s);
          sendPS2scanbyte 0x11 s
        }
      else if mod1 = 0x08 then
        do {
          s \<leftarrow> (if makeBreak = 0 then sendPS2scanbyte 0xF0 s else Some s);
          s \<leftarrow> sendPS2scanbyte 0xE0 s;
          sendPS2scanbyte 0x27 s
        }
      else if mod1 = 0x10 then
        do {
          s \<leftarrow> (if makeBreak = 0 then sendPS2scanbyte 0xF0 s else Some s);
          s \<leftarrow> sendPS2scanbyte 0xE0 s;
          sendPS2scanbyte 0x14 s
        }
      else if mod1 = 0x20 then
        do {
          s \<leftarrow> (if makeBreak = 0 then sendPS2scanbyte 0xF0 s else Some s);
          sendPS2scanbyte 0x59 s
        }
      else if mod1 = 0x40 then
        do {
          s \<leftarrow> (if makeBreak = 0 then sendPS2scanbyte 0xF0 s else Some s);
          s \<leftarrow> sendPS2scanbyte 0xE0 s;
          sendPS2scanbyte 0x11 s
        }
      else Some s)"

text \<open>The loop \<^verbatim>\<open>for (int i=0; i < 7; i++)\<close> over the modifier bits.\<close>

function dispatchModifiers :: "uint8 \<Rightarrow> uint8 \<Rightarrow> nat \<Rightarrow> device \<Rightarrow> device option" where
  "dispatchModifiers makeBreak modifier i s =
     (if i < 7 then
        let modifierMask = push_bit i (0x01 :: uint8) in
        (case (if modifier AND modifierMask \<noteq> 0
               then sendModifier makeBreak (modifier AND modifierMask) s
               else Some s) of
           None \<Rightarrow> None
         | Some s \<Rightarrow> dispatchModifiers makeBreak modifier (i + 1) s)
      else Some s)"
  by pat_completeness auto
termination
  by (relation "measure (\<lambda>(makeBreak, modifier, i, s). 7 - i)") auto

text \<open>
  \<open>millis\<close> is the value the call of \<^verbatim>\<open>millis()\<close> returns, should the function come
  to it.
\<close>

definition sendPS2scanCode ::
  "tables \<Rightarrow> uint32 \<Rightarrow> uint8 \<Rightarrow> uint8 \<Rightarrow> uint8 \<Rightarrow> device \<Rightarrow> device option" where
  "sendPS2scanCode T millis USBkeycode makeBreak modifier s =
     (if modifier = 0 then
        let s =
          (if makeBreak = 0 then
             let s = s\<lparr>greenLedPin := HIGH\<rparr> in
             if (USBkeycode \<ge> 0x04 \<and> USBkeycode \<le> 0x27) \<or>
                (USBkeycode \<ge> 0x2A \<and> USBkeycode \<le> 0x2C) \<or>
                (USBkeycode \<ge> 0x4F \<and> USBkeycode \<le> 0x52)
             then s\<lparr>gotMakeKey := True, lastUSBkeycode := USBkeycode, keyPressedTime := millis\<rparr>
             else s
           else s\<lparr>greenLedPin := LOW, gotMakeKey := False\<rparr>)
        in
          if USBkeycode = 0x48 then
            (if makeBreak = 1 then sendSequence (PrtPauseMake T) 8 0 s else Some s)
          else if USBkeycode = 0x46 then
            (if makeBreak = 1 then sendSequence (PrtScrMake T) 4 0 s
             else sendSequence (PrtScrBreak T) 6 0 s)
          else
            do {
              s \<leftarrow> (if makeBreak = 0 then sendPS2scanbyte 0xF0 s else Some s);
              s \<leftarrow> sendPS2scanbyte (USBtoPS2scanSet2 T USBkeycode 0) s;
              (if USBtoPS2scanSet2 T USBkeycode 1 \<noteq> 0
               then sendPS2scanbyte (USBtoPS2scanSet2 T USBkeycode 1) s
               else Some s)
            }
      else dispatchModifiers makeBreak modifier 0 s)"

text \<open>
  The callback of the USB host. Its contract, as the source states it:
  \<^verbatim>\<open>makeBreak = 1\<close> on key pressed and \<^verbatim>\<open>makeBreak = 0\<close> on key released.
\<close>

definition onKeyboardKey ::
  "tables \<Rightarrow> uint32 \<Rightarrow> uint8 \<Rightarrow> uint8 \<Rightarrow> uint8 \<Rightarrow> uint8 \<Rightarrow> device \<Rightarrow> device option" where
  "onKeyboardKey T millis ascii keycode makeBreak modifier s =
     sendPS2scanCode T millis keycode makeBreak modifier s"

definition keyPressed :: uint8 where "keyPressed = 1"
definition keyReleased :: uint8 where "keyReleased = 0"

subsection \<open>Frame receiver\<close>

text \<open>The loop that clocks in nine bits, and the loop that assembles the byte from eight.\<close>

function clockInBits :: "nat \<Rightarrow> bool list \<Rightarrow> device \<Rightarrow> (bool list \<times> device) option" where
  "clockInBits i PS2rxBits s =
     (if i < 9 then
        let s = emit [DelayMicroseconds (clkLowBitTime - 6),
                      DigitalWrite PS2clkOutPin PS2busOutHIGH] s in
        (case digitalRead PS2dataInPin s of
           None \<Rightarrow> None
         | Some (v, s) \<Rightarrow>
             let PS2rxBits = PS2rxBits[i := (v = HIGH)];
                 s = emit [DelayMicroseconds clkHighBitTime,
                           DigitalWrite PS2clkOutPin PS2busOutLOW] s
             in clockInBits (i + 1) PS2rxBits s)
      else Some (PS2rxBits, s))"
  by pat_completeness auto
termination
  by (relation "measure (\<lambda>(i, PS2rxBits, s). 9 - i)") auto

function assembleByte :: "bool list \<Rightarrow> nat \<Rightarrow> uint8 \<Rightarrow> uint8" where
  "assembleByte PS2rxBits i rxByte =
     (if i < 8 then
        assembleByte PS2rxBits (i + 1)
          (if PS2rxBits ! i then rxByte OR push_bit i 0x01 else rxByte)
      else rxByte)"
  by pat_completeness auto
termination
  by (relation "measure (\<lambda>(PS2rxBits, i, rxByte). 8 - i)") auto

text \<open>
  The local array \<^verbatim>\<open>PS2rxBits[11]\<close> starts out with arbitrary contents; the slots 0 to 8
  are written before any slot is read, and only the slots 0 to 7 are read.
\<close>

definition readPS2cmd :: "device \<Rightarrow> (uint8 \<times> device) option" where
  "readPS2cmd s =
     do {
       let s = emit [DelayMicroseconds delayBeforeRxPS2cmd,
                     DigitalWrite PS2clkOutPin PS2busOutLOW] s;
       (PS2rxBits, s) \<leftarrow> clockInBits 0 (replicate 11 False) s;
       let s = emit [DelayMicroseconds (clkLowBitTime - 6),
                     DigitalWrite PS2clkOutPin PS2busOutHIGH,
                     DelayMicroseconds clkHalfBitTime,
                     DigitalWrite PS2dataOutPin PS2busOutLOW,
                     DelayMicroseconds clkHalfBitTime,
                     DigitalWrite PS2clkOutPin PS2busOutLOW,
                     DelayMicroseconds (clkLowBitTime - 6),
                     DigitalWrite PS2clkOutPin PS2busOutHIGH,
                     DelayMicroseconds clkHalfBitTime,
                     DigitalWrite PS2dataOutPin PS2busOutHIGH,
                     DelayMicroseconds clkHalfBitTime,
                     DigitalWrite PS2clkOutPin PS2busOutLOW,
                     DelayMicroseconds (clkLowBitTime - 6),
                     DigitalWrite PS2clkOutPin PS2busOutHIGH] s;
       let rxByte = 0;
       let rxByte = assembleByte PS2rxBits 0 rxByte;
       Some (rxByte, s)
     }"

subsection \<open>Edge monitor\<close>

text \<open>
  One run of the clock edge handler. What it reads is given with the run: the clock level
  after the settling delay, the value of the microsecond counter of the clock low time,
  and the level of the data line.
\<close>

record edge =
  edgeClk :: level
  edgeTimer :: "64 word"
  edgeData :: level

definition PS2clk_change_isr :: "edge \<Rightarrow> device \<Rightarrow> device" where
  "PS2clk_change_isr e s =
     (if edgeClk e = LOW then s\<lparr>intrTestPin := LOW\<rparr>
      else
        let s = (if edgeTimer e > 100 \<and> edgeData e = LOW
                 then s\<lparr>PS2cmdReady := True\<rparr> else s)
        in s\<lparr>intrTestPin := HIGH\<rparr>)"

subsection \<open>Command interpreter\<close>

text \<open>
  The handler may run at any point of the main program. The main program reads the flag
  \<^verbatim>\<open>PS2cmdReady\<close> only after the 350 microsecond delay that follows its own clearing of
  the flag, so the runs of the handler that matter inside \<^verbatim>\<open>parsePS2cmd\<close> are those
  between the clearing and the test: \<open>irqs\<close>, in order. Earlier runs are overwritten by
  the clearing, later ones are seen by the next test of the flag in \<^verbatim>\<open>loop\<close>.
\<close>

definition parsePS2cmd :: "edge list \<Rightarrow> device \<Rightarrow> device option" where
  "parsePS2cmd irqs s =
     do {
       (rxByte, s) \<leftarrow> readPS2cmd s;
       let s = s\<lparr>PS2cmd := rxByte\<rparr>;
       s \<leftarrow> sendPS2byte ackResponse ackResponseDelay s;
       let s = s\<lparr>PS2cmdReady := False\<rparr>;
       let s = emit [DelayMicroseconds 350] s;
       let s = fold PS2clk_change_isr irqs s;
       s \<leftarrow> (if \<not> PS2cmdReady s then
               do {
                 let s = emit [DelayMicroseconds 650] s;
                 (bus, s) \<leftarrow> readPS2bus s;
                 s \<leftarrow> (if bus = Clk_Data then
                         do {
                           s \<leftarrow> (if PS2cmd s = resetKeybCmd
                                 then sendPS2byte selfTestOk keyboardResetDelay s
                                 else Some s);
                           s \<leftarrow> (if PS2cmd s = readIdCmd
                                 then do {
                                   s \<leftarrow> sendPS2byte readIdByte1 PS2cmdResponseDelay s;
                                   sendPS2byte readIdByte2 PS2cmdResponseDelay s
                                 }
                                 else Some s);
                           (if PS2cmd s = diagnosticCmd
                            then sendPS2byte diagnosticCmd PS2cmdResponseDelay s
                            else Some s)
                         }
                       else Some s);
                 let s = (if lastPS2cmd s = repeatRateCmd
                          then s\<lparr>repeatRate := PS2cmd s\<rparr> else s);
                 let s = (if lastPS2cmd s = setStatusCmd
                          then s\<lparr>keyboardStatus := PS2cmd s\<rparr> else s);
                 (if lastPS2cmd s = set_getScancode then
                    do {
                      let s = s\<lparr>setScanCodeVal := PS2cmd s\<rparr>;
                      (if PS2cmd s = 0x00
                       then sendPS2byte scanCodeVal PS2cmdResponseDelay s
                       else Some s)
                    }
                  else Some s)
               }
             else Some s);
       Some (s\<lparr>lastPS2cmd := PS2cmd s\<rparr>)
     }"

subsection \<open>Autorepeat scheduler and main loop\<close>

text \<open>
  The repeat statement of \<^verbatim>\<open>loop()\<close>. \<open>millis1\<close> is the clock value read in the
  condition, \<open>millis2\<close> the one read when the timer is restarted.
\<close>

definition repeatKey :: "tables \<Rightarrow> uint32 \<Rightarrow> uint32 \<Rightarrow> device \<Rightarrow> device option" where
  "repeatKey T millis1 millis2 s =
     (if gotMakeKey s = True \<and> (millis1 - keyPressedTime s) > repeatKeyInterval then
        do {
          s \<leftarrow> sendPS2scanbyte 0xF0 s;
          s \<leftarrow> sendPS2scanbyte (USBtoPS2scanSet2 T (lastUSBkeycode s) 0) s;
          s \<leftarrow> (if USBtoPS2scanSet2 T (lastUSBkeycode s) 1 \<noteq> 0
                then sendPS2scanbyte (USBtoPS2scanSet2 T (lastUSBkeycode s) 1) s
                else Some s);
          let s = emit [Delay makeBreakPS2delay] s;
          s \<leftarrow> sendPS2scanbyte (USBtoPS2scanSet2 T (lastUSBkeycode s) 0) s;
          s \<leftarrow> (if USBtoPS2scanSet2 T (lastUSBkeycode s) 1 \<noteq> 0
                then sendPS2scanbyte (USBtoPS2scanSet2 T (lastUSBkeycode s) 1) s
                else Some s);
          Some (s\<lparr>keyPressedTime := millis2\<rparr>)
        }
      else Some s)"

record keyEvent =
  evMillis :: uint32
  evAscii :: uint8
  evKeycode :: uint8
  evMakeBreak :: uint8
  evModifier :: uint8

text \<open>
  Modelled from the spec: the USB host library (\<^verbatim>\<open>EspUsbHost\<close>, whose \<^verbatim>\<open>task()\<close> is
  not part of the sources at hand) delivers key events one after the other, each through
  one call of the callback, which returns before the next event is delivered.
\<close>

fun usbHost_task :: "tables \<Rightarrow> keyEvent list \<Rightarrow> device \<Rightarrow> device option" where
  "usbHost_task T [] s = Some s"
| "usbHost_task T (ev # evs) s =
     (case onKeyboardKey T (evMillis ev) (evAscii ev) (evKeycode ev) (evMakeBreak ev)
             (evModifier ev) s of
        None \<Rightarrow> None
      | Some s \<Rightarrow> usbHost_task T evs s)"

text \<open>
  One pass of \<^verbatim>\<open>loop()\<close>. \<open>before\<close> are the runs of the edge handler since the previous
  test of the flag, \<open>irqs\<close> those inside \<^verbatim>\<open>parsePS2cmd\<close>, \<open>evs\<close> the key events
  the USB host delivers in this pass.
\<close>

definition loop ::
  "tables \<Rightarrow> edge list \<Rightarrow> edge list \<Rightarrow> uint32 \<Rightarrow> uint32 \<Rightarrow> keyEvent list \<Rightarrow> device \<Rightarrow>
   device option" where
  "loop T before irqs millis1 millis2 evs s =
     do {
       let s = fold PS2clk_change_isr before s;
       s \<leftarrow> (if PS2cmdReady s then parsePS2cmd irqs s else Some s);
       s \<leftarrow> repeatKey T millis1 millis2 s;
       usbHost_task T evs s
     }"


section \<open>Notions used to state the properties\<close>

text \<open>
  The level of a bus line as the device drives it through the transistor: pulled low when
  the output pin is at \<^verbatim>\<open>PS2busOutLOW\<close>, released (high) otherwise.
\<close>

definition lineLevel :: "level \<Rightarrow> level" where
  "lineLevel v = (if v = PS2busOutLOW then LOW else HIGH)"

text \<open>
  The bits the host takes from a stretch of bus activity: the level of the data line at
  every falling edge of the clock line. \<open>c\<close> and \<open>d\<close> are the levels of clock and data
  before the stretch.
\<close>

fun clockedBits :: "level \<Rightarrow> level \<Rightarrow> action list \<Rightarrow> level list" where
  "clockedBits c d [] = []"
| "clockedBits c d (DigitalWrite PS2dataOutPin v # as) = clockedBits c (lineLevel v) as"
| "clockedBits c d (DigitalWrite PS2clkOutPin v # as) =
     (if c = HIGH \<and> lineLevel v = LOW then d # clockedBits LOW d as
      else clockedBits (lineLevel v) d as)"
| "clockedBits c d (DelayMicroseconds t # as) = clockedBits c d as"
| "clockedBits c d (Delay t # as) = clockedBits c d as"

definition bitLevel :: "bool \<Rightarrow> level" where
  "bitLevel b = (if b then HIGH else LOW)"

text \<open>The number of ones among the bits \<open>i\<close> to 7 of a byte.\<close>

definition onesFrom :: "uint8 \<Rightarrow> nat \<Rightarrow> nat" where
  "onesFrom outByte i = length (filter (bit outByte) [i..<8])"

text \<open>The bus activity of one pass of the data bit loop, and of one whole frame.\<close>

definition dataBitActions :: "uint8 \<Rightarrow> nat \<Rightarrow> action list" where
  "dataBitActions outByte i =
     [DelayMicroseconds 13,
      DigitalWrite PS2dataOutPin (if bit outByte i then PS2busOutHIGH else PS2busOutLOW),
      DelayMicroseconds 23,
      DigitalWrite PS2clkOutPin PS2busOutLOW,
      DelayMicroseconds 26,
      DigitalWrite PS2clkOutPin PS2busOutHIGH]"

definition PS2frame :: "uint8 \<Rightarrow> action list" where
  "PS2frame outbyte =
     [DigitalWrite PS2dataOutPin PS2busOutLOW, DelayMicroseconds 20,
      DigitalWrite PS2clkOutPin PS2busOutLOW, DelayMicroseconds 30,
      DigitalWrite PS2clkOutPin PS2busOutHIGH] @
     concat (map (dataBitActions outbyte) [0..<8]) @
     [DelayMicroseconds 20,
      DigitalWrite PS2dataOutPin
        (if even (onesFrom outbyte 0) then PS2busOutHIGH else PS2busOutLOW),
      DelayMicroseconds 20, DigitalWrite PS2clkOutPin PS2busOutLOW,
      DelayMicroseconds 30, DigitalWrite PS2clkOutPin PS2busOutHIGH,
      DelayMicroseconds 20, DigitalWrite PS2dataOutPin PS2busOutHIGH,
      DelayMicroseconds 20, DigitalWrite PS2clkOutPin PS2busOutLOW,
      DelayMicroseconds 30, DigitalWrite PS2clkOutPin PS2busOutHIGH]"

text \<open>
  What the busy wait of the transmitter does to the input samples: it takes them in pairs
  (data pin first, clock pin second) up to and including the first pair that shows both
  lines high; \<open>None\<close> when no such pair comes.
\<close>

fun idleWait :: "lines list \<Rightarrow> lines list option" where
  "idleWait (d # c # rest) =
     (if dataLine d = HIGH \<and> clkLine c = HIGH then Some rest else idleWait rest)"
| "idleWait _ = None"

text \<open>
  The same for \<open>n\<close> waits in a row, as \<open>n\<close> frames sent one after the other make them.
\<close>

fun idleWaits :: "nat \<Rightarrow> lines list \<Rightarrow> lines list option" where
  "idleWaits 0 ps = Some ps"
| "idleWaits (Suc n) ps = (case idleWait ps of None \<Rightarrow> None | Some r \<Rightarrow> idleWaits n r)"

text \<open>The bus activity of a list of bytes sent as scan codes, one frame each.\<close>

definition scanCodes :: "uint8 list \<Rightarrow> action list" where
  "scanCodes bytes = concat (map (\<lambda>b. DelayMicroseconds PS2scanCodeDelay # PS2frame b) bytes)"

text \<open>
  The device after it has sent the bytes as scan codes: it has waited for the idle bus
  ahead of each frame, and has not come to an end when one of the waits finds no idle bus.
\<close>

definition transmitted :: "uint8 list \<Rightarrow> device \<Rightarrow> device option" where
  "transmitted bytes s =
     (case idleWaits (length bytes) (pins s) of
        None \<Rightarrow> None
      | Some r \<Rightarrow> Some (s\<lparr>pins := r, wire := wire s @ scanCodes bytes\<rparr>))"

text \<open>
  A call that started in \<open>s\<close> and ended as \<open>r\<close> has sent exactly the scan code bytes
  \<open>bytes\<close>: it returns if and only if the bus comes idle ahead of every frame, and then
  it has added the frames of the bytes, and nothing else, to the bus activity.
\<close>

definition sendsScanCodes :: "device \<Rightarrow> device option \<Rightarrow> uint8 list \<Rightarrow> bool" where
  "sendsScanCodes s r bytes =
     (case r of
        None \<Rightarrow> idleWaits (length bytes) (pins s) = None
      | Some s' \<Rightarrow>
          idleWaits (length bytes) (pins s) = Some (pins s') \<and>
          wire s' = wire s @ scanCodes bytes)"

text \<open>
  The bytes of the lookup table for a keycode, in the words of the specification: the
  first byte, followed by the second byte only if that is not zero.
\<close>

definition tableBytes :: "tables \<Rightarrow> uint8 \<Rightarrow> uint8 list" where
  "tableBytes T k =
     USBtoPS2scanSet2 T k 0 #
     (if USBtoPS2scanSet2 T k 1 \<noteq> 0 then [USBtoPS2scanSet2 T k 1] else [])"

text \<open>The break code ahead of a sequence, on release only.\<close>

definition breakPrefix :: "uint8 \<Rightarrow> uint8 list" where
  "breakPrefix makeBreak = (if makeBreak = 0 then [0xF0] else [])"

text \<open>
  The scan code sequences of the seven modifier bits, in the words of the specification,
  and what one bit of a modifier mask contributes.
\<close>

definition modifierCode :: "nat \<Rightarrow> uint8 list" where
  "modifierCode i =
     [[0x14], [0x12], [0x11], [0xE0, 0x27], [0xE0, 0x14], [0x59], [0xE0, 0x11]] ! i"

definition modifierBytes :: "uint8 \<Rightarrow> uint8 \<Rightarrow> nat \<Rightarrow> uint8 list" where
  "modifierBytes makeBreak modifier i =
     (if bit modifier i then breakPrefix makeBreak @ modifierCode i else [])"


text \<open>
  The keycodes of the keys that repeat, in the words of the specification: 0x04 to 0x27,
  0x2A to 0x2C and 0x4F to 0x52.
\<close>

definition repeatEligible :: "uint8 \<Rightarrow> bool" where
  "repeatEligible k =
     ((0x04 \<le> k \<and> k \<le> 0x27) \<or> (0x2A \<le> k \<and> k \<le> 0x2C) \<or> (0x4F \<le> k \<and> k \<le> 0x52))"

text \<open>
  What \<^verbatim>\<open>sendPS2scanCode\<close> does to the state for a key without modifier before it
  sends anything, and the bytes it sends then.
\<close>

definition noteKey :: "uint32 \<Rightarrow> uint8 \<Rightarrow> uint8 \<Rightarrow> device \<Rightarrow> device" where
  "noteKey millis k makeBreak s =
     (if makeBreak = 0 then
        (if repeatEligible k
         then s\<lparr>greenLedPin := HIGH, gotMakeKey := True, lastUSBkeycode := k,
                keyPressedTime := millis\<rparr>
         else s\<lparr>greenLedPin := HIGH\<rparr>)
      else s\<lparr>greenLedPin := LOW, gotMakeKey := False\<rparr>)"

definition keyBytes :: "tables \<Rightarrow> uint8 \<Rightarrow> uint8 \<Rightarrow> uint8 list" where
  "keyBytes T k makeBreak =
     (if k = 0x48 then (if makeBreak = 1 then map (PrtPauseMake T) [0..<8] else [])
      else if k = 0x46 then
        (if makeBreak = 1 then map (PrtScrMake T) [0..<4] else map (PrtScrBreak T) [0..<6])
      else breakPrefix makeBreak @ tableBytes T k)"

text \<open>
  A run of the edge handler that reports a request of the host, in the words of the
  specification: a rising clock edge after the clock was low for more than 100
  microseconds, with the data line low.
\<close>

definition hostRequest :: "edge \<Rightarrow> bool" where
  "hostRequest e = (edgeClk e = HIGH \<and> edgeTimer e > 100 \<and> edgeData e = LOW)"

text \<open>The bus activity of the receiver: one bit cell, and the whole of \<^verbatim>\<open>readPS2cmd\<close>.\<close>

definition bitCell :: "action list" where
  "bitCell = [DelayMicroseconds 24, DigitalWrite PS2clkOutPin PS2busOutHIGH,
              DelayMicroseconds 40, DigitalWrite PS2clkOutPin PS2busOutLOW]"

definition rxActions :: "action list" where
  "rxActions =
     [DelayMicroseconds 640, DigitalWrite PS2clkOutPin PS2busOutLOW] @
     concat (replicate 9 bitCell) @
     [DelayMicroseconds 24, DigitalWrite PS2clkOutPin PS2busOutHIGH,
      DelayMicroseconds 20, DigitalWrite PS2dataOutPin PS2busOutLOW,
      DelayMicroseconds 20, DigitalWrite PS2clkOutPin PS2busOutLOW,
      DelayMicroseconds 24, DigitalWrite PS2clkOutPin PS2busOutHIGH,
      DelayMicroseconds 20, DigitalWrite PS2dataOutPin PS2busOutHIGH,
      DelayMicroseconds 20, DigitalWrite PS2clkOutPin PS2busOutLOW,
      DelayMicroseconds 24, DigitalWrite PS2clkOutPin PS2busOutHIGH]"

text \<open>The receive buffer after the samples \<open>ls\<close> were stored from slot \<open>i\<close> on.\<close>

fun storeBits :: "nat \<Rightarrow> bool list \<Rightarrow> lines list \<Rightarrow> bool list" where
  "storeBits i bits [] = bits"
| "storeBits i bits (l # ls) = storeBits (Suc i) (bits[i := (dataLine l = HIGH)]) ls"

text \<open>
  Nine samples in which the host sends the byte \<open>B\<close>: the data line carries the bits of
  \<open>B\<close>, least significant first, in the first eight of them. \<open>hostFrame B\<close> is such a
  sequence of samples.
\<close>

definition hostSends :: "lines list \<Rightarrow> uint8 \<Rightarrow> bool" where
  "hostSends frame B =
     (length frame = 9 \<and>
      map dataLine (take 8 frame) = map (\<lambda>i. bitLevel (bit B i)) [0..<8])"

definition hostFrame :: "uint8 \<Rightarrow> lines list" where
  "hostFrame B = map (\<lambda>i. Lines HIGH (bitLevel (bit B i))) [0..<8] @ [Lines HIGH HIGH]"

text \<open>
  The data response to a command byte, with the delay ahead of each byte, and the response
  to a payload; the bus activity of a list of such bytes.
\<close>

definition cmdResponse :: "uint8 \<Rightarrow> (uint8 \<times> uint32) list" where
  "cmdResponse B =
     (if B = resetKeybCmd then [(selfTestOk, keyboardResetDelay)] else []) @
     (if B = readIdCmd
      then [(readIdByte1, PS2cmdResponseDelay), (readIdByte2, PS2cmdResponseDelay)] else []) @
     (if B = diagnosticCmd then [(diagnosticCmd, PS2cmdResponseDelay)] else [])"

definition payloadResponse :: "uint8 \<Rightarrow> uint8 \<Rightarrow> (uint8 \<times> uint32) list" where
  "payloadResponse lastCmd B =
     (if lastCmd = set_getScancode \<and> B = 0 then [(scanCodeVal, PS2cmdResponseDelay)] else [])"

definition frames :: "(uint8 \<times> uint32) list \<Rightarrow> action list" where
  "frames xs = concat (map (\<lambda>(b, d). DelayMicroseconds d # PS2frame b) xs)"

text \<open>
  Two stretches of \<^verbatim>\<open>parsePS2cmd\<close>, named to be reasoned about one at a time: the three
  data responses, and the storing of a payload byte.
\<close>

definition respondToCommand :: "device \<Rightarrow> device option" where
  "respondToCommand s =
     do {
       s \<leftarrow> (if PS2cmd s = resetKeybCmd
             then sendPS2byte selfTestOk keyboardResetDelay s
             else Some s);
       s \<leftarrow> (if PS2cmd s = readIdCmd
             then do {
               s \<leftarrow> sendPS2byte readIdByte1 PS2cmdResponseDelay s;
               sendPS2byte readIdByte2 PS2cmdResponseDelay s
             }
             else Some s);
       (if PS2cmd s = diagnosticCmd
        then sendPS2byte diagnosticCmd PS2cmdResponseDelay s
        else Some s)
     }"

definition storePayload :: "device \<Rightarrow> device option" where
  "storePayload s =
     do {
       let s = (if lastPS2cmd s = repeatRateCmd
                then s\<lparr>repeatRate := PS2cmd s\<rparr> else s);
       let s = (if lastPS2cmd s = setStatusCmd
                then s\<lparr>keyboardStatus := PS2cmd s\<rparr> else s);
       (if lastPS2cmd s = set_getScancode then
          do {
            let s = s\<lparr>setScanCodeVal := PS2cmd s\<rparr>;
            (if PS2cmd s = 0x00
             then sendPS2byte scanCodeVal PS2cmdResponseDelay s
             else Some s)
          }
        else Some s)
     }"

text \<open>
  The device inside \<^verbatim>\<open>parsePS2cmd\<close> when the flag is tested: the byte \<open>B\<close> is
  received and acknowledged, the 350 microseconds are over and the edge handler has run
  for \<open>irqs\<close>.
\<close>

definition settled :: "uint8 \<Rightarrow> edge list \<Rightarrow> lines list \<Rightarrow> device \<Rightarrow> device" where
  "settled B irqs r1 s =
     s\<lparr>PS2cmd := B, PS2cmdReady := (\<exists>e\<in>set irqs. hostRequest e),
       intrTestPin := (if irqs = [] then intrTestPin s else edgeClk (last irqs)),
       pins := r1,
       wire := wire s @ rxActions @
         DelayMicroseconds ackResponseDelay # PS2frame ackResponse @
         [DelayMicroseconds 350]\<rparr>"

text \<open>
  The byte the host sends: its bits 0 to 7 are the levels of the data line in the first
  eight of the samples, least significant first.
\<close>

definition hostByte :: "lines list \<Rightarrow> uint8" where
  "hostByte ps = horner_sum of_bool 2 (map (\<lambda>l. dataLine l = HIGH) (take 8 ps))"

text \<open>
  What \<^verbatim>\<open>parsePS2cmd\<close> does to the input samples \<open>ps\<close> when the previous command was
  \<open>lastCmd\<close> and the edge handler runs for \<open>irqs\<close> in the 350 microseconds after the
  clearing of the flag: nine samples for the byte of the host, the wait for the idle bus
  ahead of the acknowledgement, and, unless a new request of the host was flagged, one
  pair of samples for the re-check of the bus and the waits ahead of the responses that
  are due. The result is what is left of the samples, \<open>None\<close> when the samples end
  before the call does.
\<close>

definition parseWait :: "edge list \<Rightarrow> uint8 \<Rightarrow> lines list \<Rightarrow> lines list option" where
  "parseWait irqs lastCmd ps =
     (if length ps < 9 then None
      else
        (case idleWait (drop 9 ps) of
           None \<Rightarrow> None
         | Some r1 \<Rightarrow>
             if \<exists>e\<in>set irqs. hostRequest e then Some r1
             else
               (case r1 of
                  d # c # r2 \<Rightarrow>
                    idleWaits
                      (length ((if dataLine d = HIGH \<and> clkLine c = HIGH
                                then cmdResponse (hostByte ps) else []) @
                               payloadResponse lastCmd (hostByte ps))) r2
                | _ \<Rightarrow> None)))"

text \<open>
  The bytes of one key event, with or without modifier, and of the key events of one run
  of the USB host task.
\<close>

definition scanCodeBytes :: "tables \<Rightarrow> uint8 \<Rightarrow> uint8 \<Rightarrow> uint8 \<Rightarrow> uint8 list" where
  "scanCodeBytes T k makeBreak modifier =
     (if modifier = 0 then keyBytes T k makeBreak
      else concat (map (modifierBytes makeBreak modifier) [0..<7]))"

definition taskBytes :: "tables \<Rightarrow> keyEvent list \<Rightarrow> uint8 list" where
  "taskBytes T evs =
     concat (map (\<lambda>ev. scanCodeBytes T (evKeycode ev) (evMakeBreak ev) (evModifier ev)) evs)"

text \<open>
  What the repeat statement does to the input samples \<open>ps\<close>: when a repeat is due it
  waits for the idle bus ahead of the frame of 0xF0 and of the frames of the table bytes,
  sent twice.
\<close>

definition repeatWait :: "tables \<Rightarrow> uint32 \<Rightarrow> device \<Rightarrow> lines list \<Rightarrow> lines list option" where
  "repeatWait T millis1 s ps =
     (if gotMakeKey s \<and> millis1 - keyPressedTime s > repeatKeyInterval
      then idleWaits (1 + 2 * length (tableBytes T (lastUSBkeycode s))) ps
      else Some ps)"

text \<open>
  What one pass of \<^verbatim>\<open>loop()\<close> does to the input samples: those of \<^verbatim>\<open>parsePS2cmd\<close> if
  the flag is found set, then those of the repeat statement, then those of the key events.
\<close>

definition loopWait ::
  "tables \<Rightarrow> edge list \<Rightarrow> edge list \<Rightarrow> uint32 \<Rightarrow> keyEvent list \<Rightarrow> device \<Rightarrow>
   lines list option" where
  "loopWait T before irqs millis1 evs s =
     do {
       ps \<leftarrow> (if PS2cmdReady s \<or> (\<exists>e\<in>set before. hostRequest e)
              then parseWait irqs (lastPS2cmd s) (pins s) else Some (pins s));
       ps \<leftarrow> repeatWait T millis1 s ps;
       idleWaits (length (taskBytes T evs)) ps
     }"

text \<open>A device after \<^verbatim>\<open>setup()\<close>, with no input samples, and the sample of an idle bus.\<close>

definition dev0 :: device where
  "dev0 = \<lparr>gotMakeKey = False, keyPressedTime = 0, PS2cmd = 0, lastPS2cmd = 0x33,
     repeatRate = 0, keyboardStatus = 0, setScanCodeVal = 0, lastUSBkeycode = 0,
     PS2cmdReady = False, greenLedPin = LOW, intrTestPin = LOW, pins = [], wire = []\<rparr>"

definition idle :: lines where "idle = Lines HIGH HIGH"

text \<open>A run of the edge handler that reports a request of the host, for examples.\<close>

definition requestEdge :: edge where
  "requestEdge = \<lparr>edgeClk = HIGH, edgeTimer = 150, edgeData = LOW\<rparr>"

text \<open>
  A conversion table for examples: the row of the letter a (keycode 0x04), the row of the
  right arrow (keycode 0x4F, an extended code), zeros elsewhere, and the usual sequences
  for Pause and PrintScreen.
\<close>

definition T0 :: tables where
  "T0 = \<lparr>USBtoPS2scanSet2 =
           (\<lambda>k i. if k = 0x04 then [0x1C, 0x00] ! i
                  else if k = 0x4F then [0xE0, 0x74] ! i else 0),
         PrtPauseMake = (\<lambda>i. [0xE1, 0x14, 0x77, 0xE1, 0xF0, 0x14, 0xF0, 0x77] ! i),
         PrtScrMake = (\<lambda>i. [0xE0, 0x12, 0xE0, 0x7C] ! i),
         PrtScrBreak = (\<lambda>i. [0xE0, 0xF0, 0x7C, 0xE0, 0xF0, 0x12] ! i)\<rparr>"

section \<open>The frame transmitter\<close>

declare waitClkData.simps [simp del] sendDataBits.simps [simp del]

lemma bit_test: "(drop_bit i (b::uint8) AND 1 \<noteq> 0) = bit b i"
  by (simp add: and_one_eq bit_iff_odd_drop_bit even_iff_mod_2_eq_zero)

lemma parity_test: "((cnt::uint8) AND 1 = 0) = even cnt"
  by (simp add: and_one_eq even_iff_mod_2_eq_zero)

lemma emit_emit: "emit bs (emit as s) = emit (as @ bs) s"
  by (simp add: emit_def)

lemma sendDataBits_step:
  "i < 8 \<Longrightarrow> sendDataBits outByte i cnt s =
     sendDataBits outByte (Suc i) (if bit outByte i then cnt + 1 else cnt)
       (emit (dataBitActions outByte i) s)"
  by (subst sendDataBits.simps)
     (simp add: Let_def bit_test emit_emit dataBitActions_def
        clkHalfBitTime_def clkLowBitTime_def clkBitTime_def)

lemma sendDataBits_eq:
  "i + k = 8 \<Longrightarrow> sendDataBits outByte i cnt s =
     (cnt + of_nat (onesFrom outByte i), emit (concat (map (dataBitActions outByte) [i..<8])) s)"
proof (induction k arbitrary: i cnt s)
  case 0
  then show ?case by (simp add: onesFrom_def emit_def sendDataBits.simps)
next
  case (Suc k)
  then have lt: "i < 8" and nxt: "Suc i + k = 8" by simp_all
  have up: "[i..<8] = i # [Suc i..<8]" using lt by (simp add: upt_conv_Cons)
  have ones: "onesFrom outByte i = (if bit outByte i then 1 else 0) + onesFrom outByte (Suc i)"
    unfolding onesFrom_def by (subst up) simp
  have acts: "concat (map (dataBitActions outByte) [i..<8]) =
      dataBitActions outByte i @ concat (map (dataBitActions outByte) [Suc i..<8])"
    by (subst up) simp
  show ?case
    unfolding sendDataBits_step [OF lt] Suc.IH [OF nxt] acts ones
    by (simp add: emit_emit)
qed

lemma readPS2bus_eq:
  "readPS2bus s =
     (case pins s of
        d # c # rest \<Rightarrow>
          Some ((if dataLine d = HIGH then nClk_Data else 0) OR
                (if clkLine c = HIGH then Clk_nData else 0), s\<lparr>pins := rest\<rparr>)
      | _ \<Rightarrow> None)"
  by (simp add: readPS2bus_def digitalRead_def Let_def split: list.splits)

lemma waitClkData_eq:
  "waitClkData s =
     (case idleWait (pins s) of None \<Rightarrow> None | Some r \<Rightarrow> Some (s\<lparr>pins := r\<rparr>))"
proof (induction "pins s" arbitrary: s rule: idleWait.induct)
  case (1 d c rest)
  from 1(2) have ps: "pins s = d # c # rest" by simp
  show ?case
  proof (cases "dataLine d = HIGH \<and> clkLine c = HIGH")
    case True
    then show ?thesis
      by (subst waitClkData.simps)
         (simp add: readPS2bus_eq ps nClk_Data_def Clk_nData_def Clk_Data_def)
  next
    case False
    then have ne: "(if dataLine d = HIGH then nClk_Data else 0) OR
                (if clkLine c = HIGH then Clk_nData else 0) \<noteq> Clk_Data"
      by (auto simp: nClk_Data_def Clk_nData_def Clk_Data_def)
    have "waitClkData s = waitClkData (s\<lparr>pins := rest\<rparr>)"
      by (subst waitClkData.simps) (simp add: readPS2bus_eq ps ne del: One_nat_def)
    also have "\<dots> = (case idleWait rest of None \<Rightarrow> None | Some r \<Rightarrow> Some (s\<lparr>pins := r\<rparr>))"
      using 1(1) [of "s\<lparr>pins := rest\<rparr>"] False by (simp split: option.splits)
    finally show ?thesis using False by (auto simp: ps)
  qed
qed (subst waitClkData.simps, auto simp: readPS2bus_eq split: list.splits)+

lemma sendPS2byte_eq:
  "sendPS2byte outbyte beforeDelay s =
     (case idleWait (pins s) of
        None \<Rightarrow> None
      | Some r \<Rightarrow>
          Some (s\<lparr>pins := r,
                  wire := wire s @ DelayMicroseconds beforeDelay # PS2frame outbyte\<rparr>))"
  by (simp add: sendPS2byte_def Let_def waitClkData_eq sendDataBits_eq [where k = 8] emit_def
        parity_test PS2frame_def clkHalfBitTime_def clkLowBitTime_def clkBitTime_def
      split: option.splits)

lemma clockedBits_dataBits:
  "clockedBits HIGH d (concat (map (dataBitActions outByte) is) @
       DelayMicroseconds t # DigitalWrite PS2dataOutPin v # rest) =
     map (\<lambda>i. bitLevel (bit outByte i)) is @ clockedBits HIGH (lineLevel v) rest"
  by (induction "is" arbitrary: d)
     (simp_all add: dataBitActions_def lineLevel_def bitLevel_def PS2busOutLOW_def
        PS2busOutHIGH_def)

lemma clockedBits_PS2frame:
  "clockedBits HIGH d (PS2frame outbyte) =
     LOW # map (\<lambda>i. bitLevel (bit outbyte i)) [0..<8] @
     [bitLevel (even (onesFrom outbyte 0)), HIGH]"
  by (simp add: PS2frame_def clockedBits_dataBits lineLevel_def PS2busOutLOW_def
        PS2busOutHIGH_def bitLevel_def del: upt_rec_numeral)

lemma count_bitLevels:
  "count_list (map (\<lambda>i. bitLevel (bit outbyte i)) [0..<8]) HIGH = onesFrom outbyte 0"
proof -
  have "count_list (map (\<lambda>i. bitLevel (bit outbyte i)) is) HIGH =
      length (filter (bit outbyte) is)" for "is"
    by (induction "is") (simp_all add: bitLevel_def)
  then show ?thesis by (simp add: onesFrom_def)
qed

text \<open>
  C2. \<^verbatim>\<open>sendPS2byte\<close> returns if and only if the bus comes idle, and then the host has
  clocked eleven bits out of the activity the call added to the bus: the start bit 0, the
  eight data bits of the byte (least significant first), the parity bit and the stop bit
  1. The parity bit is 1 when the number of ones among the eight data bits is even and 0
  when it is odd, so the number of ones among data bits and parity bit together is odd.
  Nothing of the state but input and bus activity changes.
\<close>

theorem sendPS2byte_odd_parity:
  "(case sendPS2byte outbyte beforeDelay s of
      None \<Rightarrow> idleWait (pins s) = None
    | Some s' \<Rightarrow>
        idleWait (pins s) = Some (pins s') \<and>
        s' = s\<lparr>pins := pins s', wire := wire s'\<rparr> \<and>
        take (length (wire s)) (wire s') = wire s \<and>
        (let bits = clockedBits HIGH HIGH (drop (length (wire s)) (wire s'));
             dataBits = take 8 (drop 1 bits);
             parity = bits ! 9
         in length bits = 11 \<and> bits ! 0 = LOW \<and> bits ! 10 = HIGH \<and>
            dataBits = map (\<lambda>i. bitLevel (bit outbyte i)) [0..<8] \<and>
            parity = (if even (count_list dataBits HIGH) then HIGH else LOW) \<and>
            odd (count_list (dataBits @ [parity]) HIGH)))"
proof (cases "idleWait (pins s)")
  case None
  then show ?thesis by (simp add: sendPS2byte_eq)
next
  case (Some r)
  define s' where
    "s' = s\<lparr>pins := r, wire := wire s @ DelayMicroseconds beforeDelay # PS2frame outbyte\<rparr>"
  have run: "sendPS2byte outbyte beforeDelay s = Some s'"
    by (simp add: sendPS2byte_eq Some s'_def)
  define ds where "ds = map (\<lambda>i. bitLevel (bit outbyte i)) [0..<8]"
  have len: "length ds = 8" by (simp add: ds_def)
  have cnt: "count_list ds HIGH = onesFrom outbyte 0" unfolding ds_def by (rule count_bitLevels)
  have bits: "clockedBits HIGH HIGH (drop (length (wire s)) (wire s')) =
      LOW # ds @ [bitLevel (even (onesFrom outbyte 0)), HIGH]"
    by (simp add: s'_def clockedBits_PS2frame ds_def)
  have io: "idleWait (pins s) = Some (pins s')" "s' = s\<lparr>pins := pins s', wire := wire s'\<rparr>"
    "take (length (wire s)) (wire s') = wire s"
    by (simp_all add: s'_def Some)
  show ?thesis
    unfolding run option.case bits Let_def ds_def [symmetric]
    using io by (simp add: len cnt nth_append bitLevel_def)
qed

theorem sendPS2byte_odd_parity_witness:
  "sendPS2byte 0x1C 1500 (dev0\<lparr>pins := [idle, idle]\<rparr>) =
     Some (dev0\<lparr>pins := [], wire := DelayMicroseconds 1500 # PS2frame 0x1C\<rparr>) \<and>
   clockedBits HIGH HIGH (DelayMicroseconds 1500 # PS2frame 0x1C) =
     [LOW, LOW, LOW, HIGH, HIGH, HIGH, LOW, LOW, LOW, LOW, HIGH] \<and>
   (case sendPS2byte 0xFF 700 (dev0\<lparr>pins := [Lines LOW LOW, idle, idle, idle, idle]\<rparr>) of
      None \<Rightarrow> False
    | Some s' \<Rightarrow>
        pins s' = [idle] \<and>
        take 8 (drop 1 (clockedBits HIGH HIGH (wire s'))) = replicate 8 HIGH \<and>
        clockedBits HIGH HIGH (wire s') ! 9 = HIGH) \<and>
   sendPS2byte 0xFF 700 (dev0\<lparr>pins := [idle, Lines LOW HIGH, idle]\<rparr>) = None"
proof -
  have h: "sendPS2byte 0x1C 1500 (dev0\<lparr>pins := [idle, idle]\<rparr>) =
     Some (dev0\<lparr>pins := [], wire := DelayMicroseconds 1500 # PS2frame 0x1C\<rparr>)"
    by (simp add: sendPS2byte_eq dev0_def idle_def)
  have b: "clockedBits HIGH HIGH (DelayMicroseconds 1500 # PS2frame 0x1C) =
      [LOW, LOW, LOW, HIGH, HIGH, HIGH, LOW, LOW, LOW, LOW, HIGH]"
    by code_simp
  have w: "idleWait [Lines LOW LOW, idle, idle, idle, idle] = Some [idle]"
    "idleWait [idle, Lines LOW HIGH, idle] = None"
    by (simp_all add: idle_def)
  have m: "map (\<lambda>i. bitLevel (bit (0xFF::uint8) i)) [0..<8] = replicate 8 HIGH"
    by code_simp
  have ps: "pins (dev0\<lparr>pins := [Lines LOW LOW, idle, idle, idle, idle]\<rparr>) =
      [Lines LOW LOW, idle, idle, idle, idle]"
    "wire (dev0\<lparr>pins := [Lines LOW LOW, idle, idle, idle, idle]\<rparr>) = []"
    by (simp_all add: dev0_def)
  have c: "even (count_list (replicate 8 HIGH) HIGH)" by code_simp
  have 1: "case sendPS2byte 0xFF 700 (dev0\<lparr>pins := [Lines LOW LOW, idle, idle, idle, idle]\<rparr>) of
      None \<Rightarrow> False
    | Some s' \<Rightarrow>
        pins s' = [idle] \<and>
        take 8 (drop 1 (clockedBits HIGH HIGH (wire s'))) = replicate 8 HIGH \<and>
        clockedBits HIGH HIGH (wire s') ! 9 = HIGH"
  proof (cases "sendPS2byte 0xFF 700 (dev0\<lparr>pins := [Lines LOW LOW, idle, idle, idle, idle]\<rparr>)")
    case None
    with sendPS2byte_odd_parity [where outbyte = "0xFF" and beforeDelay = 700
        and s = "dev0\<lparr>pins := [Lines LOW LOW, idle, idle, idle, idle]\<rparr>"]
    show ?thesis by (simp only: option.case ps w) simp
  next
    case (Some s')
    with sendPS2byte_odd_parity [where outbyte = "0xFF" and beforeDelay = 700
        and s = "dev0\<lparr>pins := [Lines LOW LOW, idle, idle, idle, idle]\<rparr>"]
    have p: "Some [idle] = Some (pins s')"
      and d: "take 8 (drop 1 (clockedBits HIGH HIGH (wire s'))) = replicate 8 HIGH"
      and q: "clockedBits HIGH HIGH (wire s') ! 9 =
        (if even (count_list (take 8 (drop 1 (clockedBits HIGH HIGH (wire s')))) HIGH)
         then HIGH else LOW)"
      by (simp_all only: option.case ps w m Let_def list.size drop_0)
    from q have "clockedBits HIGH HIGH (wire s') ! 9 = HIGH" unfolding d using c by simp
    with p d show ?thesis unfolding Some by simp
  qed
  have 2: "sendPS2byte 0xFF 700 (dev0\<lparr>pins := [idle, Lines LOW HIGH, idle]\<rparr>) = None"
    using sendPS2byte_odd_parity [where outbyte = "0xFF" and beforeDelay = 700
        and s = "dev0\<lparr>pins := [idle, Lines LOW HIGH, idle]\<rparr>"]
    by (simp add: w split: option.splits)
  show ?thesis using h b 1 2 by blast
qed

section \<open>Sequences of scan codes\<close>

declare sendSequence.simps [simp del] dispatchModifiers.simps [simp del]

lemma idleWaits_add:
  "idleWaits (m + n) ps = (case idleWaits m ps of None \<Rightarrow> None | Some r \<Rightarrow> idleWaits n r)"
  by (induction m arbitrary: ps) (simp_all split: option.splits)

lemma scanCodes_append: "scanCodes (as @ bs) = scanCodes as @ scanCodes bs"
  by (simp add: scanCodes_def)

lemma sendPS2scanbyte_tx: "sendPS2scanbyte b = transmitted [b]"
  by (rule ext)
     (simp add: sendPS2scanbyte_def sendPS2byte_eq transmitted_def scanCodes_def
      split: option.splits)

lemma transmitted_Nil: "transmitted [] s = Some s"
  by (simp add: transmitted_def scanCodes_def)

lemma transmitted_bind:
  "Option.bind (transmitted as s) (transmitted bs) = transmitted (as @ bs) s"
  by (simp add: transmitted_def idleWaits_add scanCodes_append split: option.splits)

lemma transmitted_bind_bind:
  "Option.bind (transmitted as s) (\<lambda>s. Option.bind (transmitted bs s) f) =
   Option.bind (transmitted (as @ bs) s) f"
  by (simp add: transmitted_def idleWaits_add scanCodes_append split: option.splits)

lemma transmitted_if:
  "(if c then transmitted as s else Some s) = transmitted (if c then as else []) s"
  by (simp add: transmitted_Nil)

lemma sendSequence_tx:
  "i + k = n \<Longrightarrow> sendSequence arr n i s = transmitted (map arr [i..<n]) s"
proof (induction k arbitrary: i s)
  case 0
  then show ?case by (subst sendSequence.simps) (simp add: transmitted_Nil)
next
  case (Suc k)
  then have lt: "i < n" and nxt: "Suc i + k = n" by simp_all
  have up: "[i..<n] = i # [Suc i..<n]" using lt by (simp add: upt_conv_Cons)
  have "sendSequence arr n i s =
      Option.bind (transmitted [arr i] s) (transmitted (map arr [Suc i..<n]))"
    by (subst sendSequence.simps)
       (auto simp: lt sendPS2scanbyte_tx Suc.IH [OF nxt] split: option.splits)
  then show ?case by (simp add: transmitted_bind up)
qed

lemma default_tx:
  "do {
     s \<leftarrow> (if makeBreak = 0 then sendPS2scanbyte 0xF0 s else Some s);
     s \<leftarrow> sendPS2scanbyte (USBtoPS2scanSet2 T k 0) s;
     (if USBtoPS2scanSet2 T k 1 \<noteq> 0 then sendPS2scanbyte (USBtoPS2scanSet2 T k 1) s else Some s)
   } = transmitted (breakPrefix makeBreak @ tableBytes T k) s"
  by (simp add: sendPS2scanbyte_tx transmitted_bind transmitted_bind_bind transmitted_Nil
        breakPrefix_def tableBytes_def)

lemma and_push_bit_one: "((m::uint8) AND 2 ^ i \<noteq> 0) = bit m i"
  using bit_iff_and_push_bit_not_eq_0 [of m i] by (simp add: push_bit_eq_mult)

lemma and_push_bit_one_eq: "bit (m::uint8) i \<Longrightarrow> m AND 2 ^ i = 2 ^ i"
  by (rule bit_word_eqI) (auto simp: bit_simps)

lemma sendModifier_tx:
  "i < 7 \<Longrightarrow> sendModifier makeBreak (2 ^ i) s =
     transmitted (breakPrefix makeBreak @ modifierCode i) s"
proof -
  assume "i < 7"
  then consider "i = 0" | "i = 1" | "i = 2" | "i = 3" | "i = 4" | "i = 5" | "i = 6"
    by linarith
  then show ?thesis
    by cases
      (simp_all add: sendModifier_def modifierCode_def sendPS2scanbyte_tx transmitted_bind
        transmitted_bind_bind transmitted_Nil breakPrefix_def)
qed

lemma dispatchModifiers_step:
  "i < 7 \<Longrightarrow> dispatchModifiers makeBreak modifier i s =
     Option.bind (transmitted (modifierBytes makeBreak modifier i) s)
       (dispatchModifiers makeBreak modifier (Suc i))"
  by (subst dispatchModifiers.simps, cases "bit modifier i")
     (simp_all add: Let_def and_push_bit_one and_push_bit_one_eq sendModifier_tx
        modifierBytes_def transmitted_Nil Option.bind_def split: option.splits)

lemma dispatchModifiers_tx:
  "i + k = 7 \<Longrightarrow> dispatchModifiers makeBreak modifier i s =
     transmitted (concat (map (modifierBytes makeBreak modifier) [i..<7])) s"
proof (induction k arbitrary: i s)
  case 0
  then show ?case by (subst dispatchModifiers.simps) (simp add: transmitted_Nil)
next
  case (Suc k)
  then have lt: "i < 7" and nxt: "Suc i + k = 7" by simp_all
  have up: "[i..<7] = i # [Suc i..<7]" using lt by (simp add: upt_conv_Cons)
  have f: "dispatchModifiers makeBreak modifier (Suc i) =
      transmitted (concat (map (modifierBytes makeBreak modifier) [Suc i..<7]))"
    by (rule ext) (rule Suc.IH [OF nxt])
  have cc: "concat (map (modifierBytes makeBreak modifier) [i..<7]) =
      modifierBytes makeBreak modifier i @
      concat (map (modifierBytes makeBreak modifier) [Suc i..<7])"
    by (subst up) simp
  show ?case
    unfolding dispatchModifiers_step [OF lt] f transmitted_bind cc ..
qed


section \<open>The key event translator and the autorepeat\<close>


lemma sends_transmitted:
  "pins s1 = pins s \<Longrightarrow> wire s1 = wire s \<Longrightarrow> sendsScanCodes s (transmitted bytes s1) bytes"
  by (simp add: sendsScanCodes_def transmitted_def split: option.splits)

lemma noteKey_io [simp]:
  "pins (noteKey millis k makeBreak s) = pins s" "wire (noteKey millis k makeBreak s) = wire s"
  by (simp_all add: noteKey_def)

lemma sendPS2scanCode_key:
  "sendPS2scanCode T millis k makeBreak 0 s =
     transmitted (keyBytes T k makeBreak) (noteKey millis k makeBreak s)"
  unfolding sendPS2scanCode_def default_tx
  by (simp add: Let_def noteKey_def repeatEligible_def keyBytes_def transmitted_Nil
      sendSequence_tx [where k = 8] sendSequence_tx [where k = 4] sendSequence_tx [where k = 6]
      del: upt_rec_numeral)

lemma sendPS2scanCode_modifier:
  "modifier \<noteq> 0 \<Longrightarrow> sendPS2scanCode T millis k makeBreak modifier s =
     transmitted (concat (map (modifierBytes makeBreak modifier) [0..<7])) s"
  by (simp add: sendPS2scanCode_def dispatchModifiers_tx [where k = 7] del: upt_rec_numeral)

text \<open>
  C1. A key event without modifier for a keycode other than 0x48 (Pause) and 0x46
  (PrintScreen) sends, on press, the first byte of the table row of the keycode followed
  by the second byte only if that is not zero, and on release the same bytes with the
  break code 0xF0 ahead. With the table row 0x1C, 0x00 for keycode 0x04 the press sends
  0x1C and the release sends 0xF0, 0x1C.
\<close>

theorem sendPS2scanCode_table_lookup:
  "(USBkeycode \<noteq> 0x48 \<and> USBkeycode \<noteq> 0x46 \<longrightarrow>
      sendsScanCodes s (sendPS2scanCode T millis USBkeycode keyPressed 0 s)
        (tableBytes T USBkeycode) \<and>
      sendsScanCodes s (sendPS2scanCode T millis USBkeycode keyReleased 0 s)
        (0xF0 # tableBytes T USBkeycode)) \<and>
   (USBtoPS2scanSet2 T 0x04 0 = 0x1C \<and> USBtoPS2scanSet2 T 0x04 1 = 0 \<longrightarrow>
      sendsScanCodes s (sendPS2scanCode T millis 0x04 keyPressed 0 s) [0x1C] \<and>
      sendsScanCodes s (sendPS2scanCode T millis 0x04 keyReleased 0 s) [0xF0, 0x1C])"
proof -
  have key: "sendsScanCodes s (sendPS2scanCode T millis k mb 0 s) (breakPrefix mb @ tableBytes T k)"
    if "k \<noteq> 0x48" "k \<noteq> 0x46" for k mb
    using that by (simp add: sendPS2scanCode_key keyBytes_def sends_transmitted)
  have a: "(4::uint8) \<noteq> 0x48" "(4::uint8) \<noteq> 0x46" by simp_all
  have general: "USBkeycode \<noteq> 0x48 \<and> USBkeycode \<noteq> 0x46 \<longrightarrow>
      sendsScanCodes s (sendPS2scanCode T millis USBkeycode keyPressed 0 s)
        (tableBytes T USBkeycode) \<and>
      sendsScanCodes s (sendPS2scanCode T millis USBkeycode keyReleased 0 s)
        (0xF0 # tableBytes T USBkeycode)"
    using key [of USBkeycode keyPressed] key [of USBkeycode keyReleased]
    by (simp add: breakPrefix_def keyPressed_def keyReleased_def)
  have letter: "sendsScanCodes s (sendPS2scanCode T millis 0x04 keyPressed 0 s) [0x1C] \<and>
      sendsScanCodes s (sendPS2scanCode T millis 0x04 keyReleased 0 s) [0xF0, 0x1C]"
    if "USBtoPS2scanSet2 T 0x04 0 = 0x1C" "USBtoPS2scanSet2 T 0x04 1 = 0"
    using key [OF a, of keyPressed] key [OF a, of keyReleased] that
    by (simp add: breakPrefix_def keyPressed_def keyReleased_def tableBytes_def
          del: One_nat_def)
  show ?thesis using general letter by blast
qed

theorem sendPS2scanCode_table_lookup_witness:
  "(0x04::uint8) \<noteq> 0x48 \<and> (0x04::uint8) \<noteq> 0x46 \<and>
   USBtoPS2scanSet2 T0 0x04 0 = 0x1C \<and> USBtoPS2scanSet2 T0 0x04 1 = 0 \<and>
   sendPS2scanCode T0 1000 0x04 keyPressed 0 (dev0\<lparr>pins := [idle, idle]\<rparr>) =
     Some (dev0\<lparr>pins := [], wire := scanCodes [0x1C]\<rparr>) \<and>
   sendsScanCodes (dev0\<lparr>pins := [idle, idle]\<rparr>)
     (sendPS2scanCode T0 1000 0x04 keyPressed 0 (dev0\<lparr>pins := [idle, idle]\<rparr>)) [0x1C] \<and>
   sendsScanCodes (dev0\<lparr>pins := [idle, idle, idle, idle]\<rparr>)
     (sendPS2scanCode T0 1000 0x04 keyReleased 0 (dev0\<lparr>pins := [idle, idle, idle, idle]\<rparr>))
     [0xF0, 0x1C]"
proof -
  have t: "USBtoPS2scanSet2 T0 0x04 0 = 0x1C" "USBtoPS2scanSet2 T0 0x04 1 = 0"
    by (simp_all add: T0_def)
  have r: "sendPS2scanCode T0 1000 0x04 keyPressed 0 (dev0\<lparr>pins := [idle, idle]\<rparr>) =
     Some (dev0\<lparr>pins := [], wire := scanCodes [0x1C]\<rparr>)"
    by (simp add: sendPS2scanCode_key keyBytes_def noteKey_def keyPressed_def breakPrefix_def
        tableBytes_def t transmitted_def idle_def dev0_def del: One_nat_def)
  show ?thesis
    using t r
      sendPS2scanCode_table_lookup [where USBkeycode = 4 and T = T0 and millis = 1000
        and s = "dev0\<lparr>pins := [idle, idle]\<rparr>"]
      sendPS2scanCode_table_lookup [where USBkeycode = 4 and T = T0 and millis = 1000
        and s = "dev0\<lparr>pins := [idle, idle, idle, idle]\<rparr>"]
    by simp
qed



lemma idleWaits_idle: "idleWaits n (replicate (2 * n) idle) = Some []"
  by (induction n) (simp_all add: idle_def)

lemma idleWaits_all_idle:
  "length ps = 2 * n \<Longrightarrow> set ps \<subseteq> {idle} \<Longrightarrow> idleWaits n ps = Some []"
proof -
  assume "length ps = 2 * n" and "set ps \<subseteq> {idle}"
  then have "ps = replicate (2 * n) idle"
    by (metis replicate_length_same subset_singletonD empty_iff subsetD singletonD)
  then show ?thesis by (simp only: idleWaits_idle)
qed

lemma transmitted_idle:
  "pins s = replicate (2 * length bytes) idle \<Longrightarrow>
   transmitted bytes s = Some (s\<lparr>pins := [], wire := wire s @ scanCodes bytes\<rparr>)"
  by (simp add: transmitted_def idleWaits_idle)

text \<open>
  C6. A key event with a modifier mask other than zero goes through the modifier bits 0
  to 6 in increasing order and sends, for every bit that is set, the sequence of that
  modifier (0x14; 0x12; 0x11; 0xE0 0x27; 0xE0 0x14; 0x59; 0xE0 0x11), each with 0xF0 ahead
  on release. The keycode is not translated: the outcome does not depend on the keycode,
  the table or the clock, and nothing of the state but input and bus activity changes.
\<close>

theorem sendPS2scanCode_modifier_keys:
  assumes "modifier \<noteq> 0"
  shows "sendsScanCodes s (sendPS2scanCode T millis USBkeycode keyPressed modifier s)
           (concat (map (\<lambda>i. if bit modifier i then modifierCode i else []) [0..<7])) \<and>
         sendsScanCodes s (sendPS2scanCode T millis USBkeycode keyReleased modifier s)
           (concat (map (\<lambda>i. if bit modifier i then 0xF0 # modifierCode i else []) [0..<7])) \<and>
         sendPS2scanCode T millis USBkeycode makeBreak modifier s =
           sendPS2scanCode T' millis' USBkeycode' makeBreak modifier s \<and>
         (\<forall>s'. sendPS2scanCode T millis USBkeycode makeBreak modifier s = Some s' \<longrightarrow>
            s' = s\<lparr>pins := pins s', wire := wire s'\<rparr>)"
proof -
  have p: "modifierBytes keyPressed modifier = (\<lambda>i. if bit modifier i then modifierCode i else [])"
    by (rule ext) (simp add: modifierBytes_def breakPrefix_def keyPressed_def)
  have r: "modifierBytes keyReleased modifier =
      (\<lambda>i. if bit modifier i then 0xF0 # modifierCode i else [])"
    by (rule ext) (simp add: modifierBytes_def breakPrefix_def keyReleased_def)
  have 1: "sendsScanCodes s (sendPS2scanCode T millis USBkeycode keyPressed modifier s)
           (concat (map (\<lambda>i. if bit modifier i then modifierCode i else []) [0..<7]))"
    unfolding sendPS2scanCode_modifier [OF assms] p by (simp add: sends_transmitted)
  have 2: "sendsScanCodes s (sendPS2scanCode T millis USBkeycode keyReleased modifier s)
           (concat (map (\<lambda>i. if bit modifier i then 0xF0 # modifierCode i else []) [0..<7]))"
    unfolding sendPS2scanCode_modifier [OF assms] r by (simp add: sends_transmitted)
  have 3: "sendPS2scanCode T millis USBkeycode makeBreak modifier s =
           sendPS2scanCode T' millis' USBkeycode' makeBreak modifier s"
    unfolding sendPS2scanCode_modifier [OF assms] ..
  have 4: "\<forall>s'. sendPS2scanCode T millis USBkeycode makeBreak modifier s = Some s' \<longrightarrow>
            s' = s\<lparr>pins := pins s', wire := wire s'\<rparr>"
    unfolding sendPS2scanCode_modifier [OF assms]
    by (auto simp: transmitted_def split: option.splits)
  show ?thesis using 1 2 3 4 by blast
qed

theorem sendPS2scanCode_modifier_keys_witness:
  "(0x0A::uint8) \<noteq> 0 \<and>
   sendPS2scanCode T0 0 0x04 keyReleased 0x0A (dev0\<lparr>pins := replicate 10 idle\<rparr>) =
     Some (dev0\<lparr>pins := [], wire := scanCodes [0xF0, 0x12, 0xF0, 0xE0, 0x27]\<rparr>) \<and>
   sendsScanCodes (dev0\<lparr>pins := replicate 10 idle\<rparr>)
     (sendPS2scanCode T0 0 0x04 keyReleased 0x0A (dev0\<lparr>pins := replicate 10 idle\<rparr>))
     [0xF0, 0x12, 0xF0, 0xE0, 0x27]"
proof -
  have h: "(0x0A::uint8) \<noteq> 0" by simp
  have b: "concat (map (\<lambda>i. if bit (0x0A::uint8) i then 0xF0 # modifierCode i else []) [0..<7]) =
      [0xF0, 0x12, 0xF0, 0xE0, 0x27]"
    by code_simp
  have b': "concat (map (modifierBytes keyReleased 0x0A) [0..<7]) =
      [0xF0, 0x12, 0xF0, 0xE0, 0x27]"
    by code_simp
  have e: "sendPS2scanCode T0 0 0x04 keyReleased 0x0A (dev0\<lparr>pins := replicate 10 idle\<rparr>) =
     Some (dev0\<lparr>pins := [], wire := scanCodes [0xF0, 0x12, 0xF0, 0xE0, 0x27]\<rparr>)"
    unfolding sendPS2scanCode_modifier [OF h] b'
    by (subst transmitted_idle) (simp_all add: dev0_def)
  have m: "sendsScanCodes (dev0\<lparr>pins := replicate 10 idle\<rparr>)
     (sendPS2scanCode T0 0 0x04 keyReleased 0x0A (dev0\<lparr>pins := replicate 10 idle\<rparr>))
     (concat (map (\<lambda>i. if bit (0x0A::uint8) i then 0xF0 # modifierCode i else []) [0..<7]))"
    using sendPS2scanCode_modifier_keys [OF h] by blast
  show ?thesis using h e m unfolding b by blast
qed

lemma PS2frame_length: "length (PS2frame b) = 65"
proof -
  have "length (concat (map (dataBitActions b) is)) = 6 * length is" for "is"
    by (induction "is") (simp_all add: dataBitActions_def)
  then show ?thesis by (simp add: PS2frame_def del: upt_rec_numeral)
qed

lemma scanCodes_Cons:
  "scanCodes (b # bs) = DelayMicroseconds PS2scanCodeDelay # PS2frame b @ scanCodes bs"
  by (simp add: scanCodes_def)

text \<open>
  C10, as stated, fails for the release of PrintScreen (keycode 0x46, no modifier): the
  code sends the six bytes of the fixed break sequence and puts no 0xF0 ahead of it. With
  the usual sequence 0xE0 0xF0 0x7C 0xE0 0xF0 0x12 (the header with the sequences is not
  part of the sources at hand; the code fixes the length six) the first byte on the bus
  is 0xE0, so what is sent is no sequence that has 0xF0 first.
\<close>

theorem sendPS2scanCode_printscreen_release:
  "sendPS2scanCode T0 0 0x46 keyReleased 0 (dev0\<lparr>pins := replicate 12 idle\<rparr>) =
     Some (dev0\<lparr>greenLedPin := HIGH,
             wire := scanCodes [0xE0, 0xF0, 0x7C, 0xE0, 0xF0, 0x12]\<rparr>) \<and>
   (\<forall>bytes. scanCodes [0xE0, 0xF0, 0x7C, 0xE0, 0xF0, 0x12] \<noteq> scanCodes (0xF0 # bytes))"
proof -
  have b: "keyBytes T0 0x46 keyReleased = [0xE0, 0xF0, 0x7C, 0xE0, 0xF0, 0x12]"
    by code_simp
  have 1: "sendPS2scanCode T0 0 0x46 keyReleased 0 (dev0\<lparr>pins := replicate 12 idle\<rparr>) =
     Some (dev0\<lparr>greenLedPin := HIGH,
             wire := scanCodes [0xE0, 0xF0, 0x7C, 0xE0, 0xF0, 0x12]\<rparr>)"
    unfolding sendPS2scanCode_key b
    by (subst transmitted_idle)
       (simp_all add: noteKey_def keyReleased_def repeatEligible_def dev0_def)
  have ne: "PS2frame 0xE0 \<noteq> PS2frame 0xF0"
    by code_simp
  have 2: "scanCodes [0xE0, 0xF0, 0x7C, 0xE0, 0xF0, 0x12] \<noteq> scanCodes (0xF0 # bytes)" for bytes
    unfolding scanCodes_Cons using ne by (simp add: PS2frame_length)
  show ?thesis using 1 2 by blast
qed

text \<open>
  C10, amended. The release of Pause (keycode 0x48, no modifier) sends nothing: the call
  returns at once with the bus activity unchanged. The press of Pause sends the eight
  bytes of its make sequence. The release of every other key without modifier sends at
  least one byte: 0xF0 followed by the table bytes for the keys other than PrintScreen,
  and for PrintScreen (keycode 0x46) the six bytes of its fixed break sequence, with no
  0xF0 put ahead by the code.
\<close>

theorem sendPS2scanCode_pause_release:
  "sendPS2scanCode T millis 0x48 keyReleased 0 s = Some (s\<lparr>greenLedPin := HIGH\<rparr>) \<and>
   sendsScanCodes s (sendPS2scanCode T millis 0x48 keyPressed 0 s)
     (map (PrtPauseMake T) [0..<8]) \<and>
   (USBkeycode \<noteq> 0x48 \<longrightarrow>
      sendsScanCodes s (sendPS2scanCode T millis USBkeycode keyReleased 0 s)
        (if USBkeycode = 0x46 then map (PrtScrBreak T) [0..<6]
         else 0xF0 # tableBytes T USBkeycode))"
proof -
  have 1: "sendPS2scanCode T millis 0x48 keyReleased 0 s = Some (s\<lparr>greenLedPin := HIGH\<rparr>)"
    by (simp add: sendPS2scanCode_key keyBytes_def noteKey_def repeatEligible_def keyReleased_def
        transmitted_Nil)
  have 2: "sendsScanCodes s (sendPS2scanCode T millis 0x48 keyPressed 0 s)
     (map (PrtPauseMake T) [0..<8])"
    by (simp add: sendPS2scanCode_key keyBytes_def keyPressed_def sends_transmitted
        del: upt_rec_numeral)
  have 3: "sendsScanCodes s (sendPS2scanCode T millis USBkeycode keyReleased 0 s)
        (if USBkeycode = 0x46 then map (PrtScrBreak T) [0..<6]
         else 0xF0 # tableBytes T USBkeycode)" if "USBkeycode \<noteq> 0x48"
    using that
    by (simp add: sendPS2scanCode_key keyBytes_def keyReleased_def sends_transmitted
        breakPrefix_def del: upt_rec_numeral)
  show ?thesis using 1 2 3 by blast
qed

theorem sendPS2scanCode_pause_release_witness:
  "(0x04::uint8) \<noteq> 0x48 \<and> (0x46::uint8) \<noteq> 0x48 \<and>
   sendPS2scanCode T0 0 0x48 keyReleased 0 dev0 = Some (dev0\<lparr>greenLedPin := HIGH\<rparr>) \<and>
   sendsScanCodes (dev0\<lparr>pins := replicate 4 idle\<rparr>)
     (sendPS2scanCode T0 0 0x04 keyReleased 0 (dev0\<lparr>pins := replicate 4 idle\<rparr>))
     [0xF0, 0x1C] \<and>
   sendsScanCodes (dev0\<lparr>pins := replicate 12 idle\<rparr>)
     (sendPS2scanCode T0 0 0x46 keyReleased 0 (dev0\<lparr>pins := replicate 12 idle\<rparr>))
     [0xE0, 0xF0, 0x7C, 0xE0, 0xF0, 0x12]"
proof -
  have h: "(0x04::uint8) \<noteq> 0x48" "(0x46::uint8) \<noteq> 0x48" by simp_all
  have t: "tableBytes T0 0x04 = [0x1C]" by (simp add: tableBytes_def T0_def)
  have b: "map (PrtScrBreak T0) [0..<6] = [0xE0, 0xF0, 0x7C, 0xE0, 0xF0, 0x12]"
    by code_simp
  have 1: "sendPS2scanCode T0 0 0x48 keyReleased 0 dev0 = Some (dev0\<lparr>greenLedPin := HIGH\<rparr>)"
    using sendPS2scanCode_pause_release [where T = T0 and millis = 0 and s = dev0]
    by simp
  have 2: "sendsScanCodes (dev0\<lparr>pins := replicate 4 idle\<rparr>)
     (sendPS2scanCode T0 0 0x04 keyReleased 0 (dev0\<lparr>pins := replicate 4 idle\<rparr>))
     [0xF0, 0x1C]"
    using h sendPS2scanCode_pause_release [where T = T0 and millis = 0 and USBkeycode = 4
        and s = "dev0\<lparr>pins := replicate 4 idle\<rparr>"]
    by (simp add: t)
  have 3: "sendsScanCodes (dev0\<lparr>pins := replicate 12 idle\<rparr>)
     (sendPS2scanCode T0 0 0x46 keyReleased 0 (dev0\<lparr>pins := replicate 12 idle\<rparr>))
     (map (PrtScrBreak T0) [0..<6])"
    using h sendPS2scanCode_pause_release [where T = T0 and millis = 0 and USBkeycode = "0x46"
        and s = "dev0\<lparr>pins := replicate 12 idle\<rparr>"]
    by (simp del: upt_rec_numeral)
  show ?thesis using h 1 2 3 unfolding b by blast
qed

lemma sendPS2scanCode_bookkeeping:
  "sendPS2scanCode T millis USBkeycode keyPressed 0 s =
     transmitted (keyBytes T USBkeycode keyPressed) (s\<lparr>greenLedPin := LOW, gotMakeKey := False\<rparr>) \<and>
   sendPS2scanCode T millis USBkeycode keyReleased 0 s =
     transmitted (keyBytes T USBkeycode keyReleased)
       (if repeatEligible USBkeycode
        then s\<lparr>greenLedPin := HIGH, gotMakeKey := True, lastUSBkeycode := USBkeycode,
               keyPressedTime := millis\<rparr>
        else s\<lparr>greenLedPin := HIGH\<rparr>)"
  by (simp add: sendPS2scanCode_key noteKey_def keyPressed_def keyReleased_def)

text \<open>
  C8, as the code has it. With the callback's contract (\<^verbatim>\<open>makeBreak = 1\<close> pressed,
  \<^verbatim>\<open>makeBreak = 0\<close> released) a press without modifier clears the repeat candidate,
  whatever the keycode, and it is the release of a key of the repeating ranges that
  records the keycode and the time; the specification has it the other way round. Here
  the letter a (keycode 0x04) is pressed at time 1000 and released at time 1300: after
  the press no candidate is recorded, after the release the candidate is armed.
\<close>

theorem sendPS2scanCode_repeat_inverted:
  "sendPS2scanCode T0 1000 0x04 keyPressed 0 (dev0\<lparr>pins := replicate 2 idle\<rparr>) =
     Some (dev0\<lparr>wire := scanCodes [0x1C]\<rparr>) \<and>
   gotMakeKey (dev0\<lparr>wire := scanCodes [0x1C]\<rparr>) = False \<and>
   sendPS2scanCode T0 1300 0x04 keyReleased 0
       (dev0\<lparr>wire := scanCodes [0x1C], pins := replicate 4 idle\<rparr>) =
     Some (dev0\<lparr>greenLedPin := HIGH, gotMakeKey := True, lastUSBkeycode := 0x04,
             keyPressedTime := 1300, wire := scanCodes [0x1C] @ scanCodes [0xF0, 0x1C]\<rparr>)"
proof -
  have t: "tableBytes T0 0x04 = [0x1C]" by (simp add: tableBytes_def T0_def)
  have 1: "sendPS2scanCode T0 1000 0x04 keyPressed 0 (dev0\<lparr>pins := replicate 2 idle\<rparr>) =
     Some (dev0\<lparr>wire := scanCodes [0x1C]\<rparr>)"
    unfolding sendPS2scanCode_key
    by (subst transmitted_idle)
       (simp_all add: noteKey_def keyPressed_def keyBytes_def breakPrefix_def t dev0_def)
  have 2: "sendPS2scanCode T0 1300 0x04 keyReleased 0
       (dev0\<lparr>wire := scanCodes [0x1C], pins := replicate 4 idle\<rparr>) =
     Some (dev0\<lparr>greenLedPin := HIGH, gotMakeKey := True, lastUSBkeycode := 0x04,
             keyPressedTime := 1300, wire := scanCodes [0x1C] @ scanCodes [0xF0, 0x1C]\<rparr>)"
    unfolding sendPS2scanCode_key
    by (subst transmitted_idle)
       (simp_all add: noteKey_def keyReleased_def keyBytes_def breakPrefix_def t dev0_def
          repeatEligible_def)
  have 3: "gotMakeKey (dev0\<lparr>wire := scanCodes [0x1C]\<rparr>) = False"
    by (simp add: dev0_def)
  show ?thesis using 1 2 3 by blast
qed

lemma repeatKey_eq:
  "repeatKey T millis1 millis2 s =
     (if gotMakeKey s \<and> millis1 - keyPressedTime s > repeatKeyInterval then
        do {
          s \<leftarrow> transmitted (0xF0 # tableBytes T (lastUSBkeycode s)) s;
          s \<leftarrow> transmitted (tableBytes T (lastUSBkeycode s)) (emit [Delay makeBreakPS2delay] s);
          Some (s\<lparr>keyPressedTime := millis2\<rparr>)
        }
      else Some s)"
  by (cases "USBtoPS2scanSet2 T (lastUSBkeycode s) 1 = 0")
     (simp_all add: repeatKey_def sendPS2scanbyte_tx tableBytes_def transmitted_def emit_def
        scanCodes_def Let_def split: option.splits del: One_nat_def)

text \<open>
  C9. Every pass of the main loop runs the repeat statement once, between the handling
  of a pending command and the key events of the USB host. When a repeat candidate is
  armed and more than 270 ms have gone by since its time stamp, the statement sends 0xF0
  and the table bytes of the candidate (the second only if not zero), waits 40 ms, sends
  the table bytes again and sets the time stamp to the clock; otherwise it sends nothing
  and changes nothing. (It does not come to an end when the bus never gets idle ahead of
  one of the frames.)
\<close>

theorem repeatKey_tick:
  "repeatKeyInterval = 270 \<and> makeBreakPS2delay = 40 \<and>
   repeatKey T millis1 millis2 s =
     (if gotMakeKey s \<and> millis1 - keyPressedTime s > repeatKeyInterval then
        (case idleWaits (1 + 2 * length (tableBytes T (lastUSBkeycode s))) (pins s) of
           None \<Rightarrow> None
         | Some r \<Rightarrow>
             Some (s\<lparr>pins := r,
                     wire := wire s @
                       scanCodes (0xF0 # tableBytes T (lastUSBkeycode s)) @
                       [Delay makeBreakPS2delay] @
                       scanCodes (tableBytes T (lastUSBkeycode s)),
                     keyPressedTime := millis2\<rparr>))
      else Some s) \<and>
   loop T es irqs millis1 millis2 evs s =
     do {
       s \<leftarrow> (if PS2cmdReady (fold PS2clk_change_isr es s)
             then parsePS2cmd irqs (fold PS2clk_change_isr es s)
             else Some (fold PS2clk_change_isr es s));
       s \<leftarrow> repeatKey T millis1 millis2 s;
       usbHost_task T evs s
     }"
proof -
  have n: "1 + 2 * length bs = length (0xF0 # bs) + length bs" for bs :: "uint8 list"
    by simp
  have r: "repeatKey T millis1 millis2 s =
     (if gotMakeKey s \<and> millis1 - keyPressedTime s > repeatKeyInterval then
        (case idleWaits (1 + 2 * length (tableBytes T (lastUSBkeycode s))) (pins s) of
           None \<Rightarrow> None
         | Some r \<Rightarrow>
             Some (s\<lparr>pins := r,
                     wire := wire s @
                       scanCodes (0xF0 # tableBytes T (lastUSBkeycode s)) @
                       [Delay makeBreakPS2delay] @
                       scanCodes (tableBytes T (lastUSBkeycode s)),
                     keyPressedTime := millis2\<rparr>))
      else Some s)"
    unfolding repeatKey_eq n idleWaits_add
    by (simp add: transmitted_def emit_def split: option.splits)
  have l: "loop T es irqs millis1 millis2 evs s =
     do {
       s \<leftarrow> (if PS2cmdReady (fold PS2clk_change_isr es s)
             then parsePS2cmd irqs (fold PS2clk_change_isr es s)
             else Some (fold PS2clk_change_isr es s));
       s \<leftarrow> repeatKey T millis1 millis2 s;
       usbHost_task T evs s
     }"
    by (simp only: loop_def Let_def)
  show ?thesis
    using r l by (simp only: repeatKeyInterval_def makeBreakPS2delay_def simp_thms)
qed

theorem repeatKey_tick_witness:
  "repeatKey T0 1271 1320
     (dev0\<lparr>gotMakeKey := True, lastUSBkeycode := 0x4F, keyPressedTime := 1000,
           pins := replicate 10 idle\<rparr>) =
   Some (dev0\<lparr>gotMakeKey := True, lastUSBkeycode := 0x4F, keyPressedTime := 1320, pins := [],
           wire := scanCodes [0xF0, 0xE0, 0x74] @ [Delay 40] @ scanCodes [0xE0, 0x74]\<rparr>) \<and>
   repeatKey T0 1270 1320
     (dev0\<lparr>gotMakeKey := True, lastUSBkeycode := 0x4F, keyPressedTime := 1000,
           pins := replicate 10 idle\<rparr>) =
   Some (dev0\<lparr>gotMakeKey := True, lastUSBkeycode := 0x4F, keyPressedTime := 1000,
           pins := replicate 10 idle\<rparr>)"
proof -
  have t: "tableBytes T0 0x4F = [0xE0, 0x74]" by (simp add: tableBytes_def T0_def)
  show ?thesis
    by (simp add: repeatKey_tick [THEN conjunct2, THEN conjunct2, THEN conjunct1]
        repeatKeyInterval_def
        makeBreakPS2delay_def t idleWaits_all_idle dev0_def)
qed


section \<open>The frame receiver and the command interpreter\<close>

declare clockInBits.simps [simp del] assembleByte.simps [simp del]

lemma clockInBits_step:
  "i < 9 \<Longrightarrow> pins s = l # ls \<Longrightarrow>
   clockInBits i bits s =
     clockInBits (Suc i) (bits[i := (dataLine l = HIGH)])
       (s\<lparr>pins := ls, wire := wire s @ bitCell\<rparr>)"
  by (subst clockInBits.simps)
     (simp add: Let_def digitalRead_def emit_def bitCell_def clkLowBitTime_def clkBitTime_def
        clkHighBitTime_def)

lemma clockInBits_short:
  "i < 9 \<Longrightarrow> pins s = [] \<Longrightarrow> clockInBits i bits s = None"
  by (subst clockInBits.simps) (simp add: Let_def digitalRead_def emit_def)

lemma clockInBits_eq:
  "i + k = 9 \<Longrightarrow>
   clockInBits i bits s =
     (if length (pins s) < k then None
      else Some (storeBits i bits (take k (pins s)),
                 s\<lparr>pins := drop k (pins s), wire := wire s @ concat (replicate k bitCell)\<rparr>))"
proof (induction k arbitrary: i bits s)
  case 0
  then show ?case by (subst clockInBits.simps) simp
next
  case (Suc k)
  then have lt: "i < 9" and nxt: "Suc i + k = 9" by simp_all
  show ?case
  proof (cases "pins s")
    case Nil
    then show ?thesis by (simp add: clockInBits_short [OF lt])
  next
    case (Cons l ls)
    show ?thesis
      unfolding clockInBits_step [OF lt Cons] Suc.IH [OF nxt]
      by (simp add: Cons)
  qed
qed

lemma storeBits_nth:
  "i + length ls \<le> length bits \<Longrightarrow> n < length bits \<Longrightarrow>
   storeBits i bits ls ! n =
     (if i \<le> n \<and> n < i + length ls then dataLine (ls ! (n - i)) = HIGH else bits ! n)"
proof (induction ls arbitrary: i bits)
  case Nil
  then show ?case by auto
next
  case (Cons l ls)
  have len: "Suc i + length ls \<le> length (bits[i := (dataLine l = HIGH)])"
    and n: "n < length (bits[i := (dataLine l = HIGH)])"
    using Cons.prems by simp_all
  consider "n < i" | "n = i" | "i < n" by linarith
  then show ?case
  proof cases
    case 1
    then show ?thesis using Cons.prems Cons.IH [OF len n] by simp
  next
    case 2
    then show ?thesis using Cons.prems Cons.IH [OF len n] by simp
  next
    case 3
    then have "n - i = Suc (n - Suc i)" by simp
    then show ?thesis using 3 Cons.prems Cons.IH [OF len n] by simp
  qed
qed

lemma assembleByte_step:
  "i < 8 \<Longrightarrow> assembleByte bits i rxByte =
     assembleByte bits (Suc i) (if bits ! i then rxByte OR push_bit i 1 else rxByte)"
  by (subst assembleByte.simps) simp

lemma bit_assembleByte:
  "i + k = 8 \<Longrightarrow>
   bit (assembleByte bits i rxByte) n = (bit rxByte n \<or> (i \<le> n \<and> n < 8 \<and> bits ! n))"
proof (induction k arbitrary: i rxByte)
  case 0
  then show ?case by (subst assembleByte.simps) auto
next
  case (Suc k)
  then have lt: "i < 8" and nxt: "Suc i + k = 8" by simp_all
  have "i \<le> n \<longleftrightarrow> i = n \<or> Suc i \<le> n" by auto
  then show ?case
    unfolding assembleByte_step [OF lt] Suc.IH [OF nxt]
    using lt by (auto simp: bit_simps)
qed

lemma readPS2cmd_eq:
  "readPS2cmd s =
     (if length (pins s) < 9 then None
      else Some (assembleByte (storeBits 0 (replicate 11 False) (take 9 (pins s))) 0 0,
                 s\<lparr>pins := drop 9 (pins s), wire := wire s @ rxActions\<rparr>))"
  by (simp add: readPS2cmd_def Let_def clockInBits_eq [where k = 9] emit_def rxActions_def
        delayBeforeRxPS2cmd_def clkLowBitTime_def clkBitTime_def clkHalfBitTime_def)

lemma bitLevel_HIGH: "(bitLevel b = HIGH) = b"
  by (simp add: bitLevel_def)

lemma readPS2cmd_hostSends:
  assumes "pins s = frame @ rest" and "hostSends frame B"
  shows "readPS2cmd s = Some (B, s\<lparr>pins := rest, wire := wire s @ rxActions\<rparr>)"
proof -
  from assms(2) have len: "length frame = 9"
    and bits: "map dataLine (take 8 frame) = map (\<lambda>i. bitLevel (bit B i)) [0..<8]"
    by (simp_all add: hostSends_def)
  have nth: "dataLine (frame ! n) = bitLevel (bit B n)" if "n < 8" for n
  proof -
    have "map dataLine (take 8 frame) ! n = map (\<lambda>i. bitLevel (bit B i)) [0..<8] ! n"
      by (simp only: bits)
    then show ?thesis using that len by simp
  qed
  have "assembleByte (storeBits 0 (replicate 11 False) frame) 0 0 = B"
  proof (rule bit_word_eqI)
    fix n assume "n < LENGTH(8)"
    then have n: "n < 8" by simp
    then show "bit (assembleByte (storeBits 0 (replicate 11 False) frame) 0 0) n = bit B n"
      by (simp add: bit_assembleByte [where k = 8] storeBits_nth len nth bitLevel_HIGH)
  qed
  then show ?thesis by (simp add: readPS2cmd_eq assms(1) len)
qed

lemma hostSends_hostFrame: "hostSends (hostFrame B) B"
  by (simp add: hostSends_def hostFrame_def del: upt_rec_numeral)

lemma isr_eq:
  "PS2clk_change_isr e s =
     s\<lparr>PS2cmdReady := PS2cmdReady s \<or> hostRequest e, intrTestPin := edgeClk e\<rparr>"
  by (cases "edgeClk e") (auto simp: PS2clk_change_isr_def hostRequest_def Let_def)

lemma fold_isr:
  "fold PS2clk_change_isr es s =
     s\<lparr>PS2cmdReady := PS2cmdReady s \<or> (\<exists>e\<in>set es. hostRequest e),
       intrTestPin := (if es = [] then intrTestPin s else edgeClk (last es))\<rparr>"
proof (induction es arbitrary: s)
  case Nil
  then show ?case by simp
next
  case (Cons e es)
  have "fold PS2clk_change_isr (e # es) s = fold PS2clk_change_isr es (PS2clk_change_isr e s)"
    by simp
  also have "\<dots> = (PS2clk_change_isr e s)
      \<lparr>PS2cmdReady := PS2cmdReady (PS2clk_change_isr e s) \<or> (\<exists>e\<in>set es. hostRequest e),
       intrTestPin := (if es = [] then intrTestPin (PS2clk_change_isr e s) else edgeClk (last es))\<rparr>"
    by (rule Cons)
  also have "\<dots> = s\<lparr>PS2cmdReady := PS2cmdReady s \<or> (\<exists>e\<in>set (e # es). hostRequest e),
       intrTestPin := (if e # es = [] then intrTestPin s else edgeClk (last (e # es)))\<rparr>"
    by (auto simp: isr_eq)
  finally show ?case .
qed

lemma responses_eq:
  "do {
     s \<leftarrow> (if PS2cmd s = resetKeybCmd
           then sendPS2byte selfTestOk keyboardResetDelay s
           else Some s);
     s \<leftarrow> (if PS2cmd s = readIdCmd
           then do {
             s \<leftarrow> sendPS2byte readIdByte1 PS2cmdResponseDelay s;
             sendPS2byte readIdByte2 PS2cmdResponseDelay s
           }
           else Some s);
     (if PS2cmd s = diagnosticCmd
      then sendPS2byte diagnosticCmd PS2cmdResponseDelay s
      else Some s)
   } =
   (case idleWaits (length (cmdResponse (PS2cmd s))) (pins s) of
      None \<Rightarrow> None
    | Some r \<Rightarrow> Some (s\<lparr>pins := r, wire := wire s @ frames (cmdResponse (PS2cmd s))\<rparr>))"
proof -
  consider "PS2cmd s = resetKeybCmd" | "PS2cmd s = readIdCmd" | "PS2cmd s = diagnosticCmd"
    | "PS2cmd s \<noteq> resetKeybCmd" "PS2cmd s \<noteq> readIdCmd" "PS2cmd s \<noteq> diagnosticCmd"
    by blast
  then show ?thesis
  proof cases
    case 1
    then show ?thesis
      by (simp add: sendPS2byte_eq cmdResponse_def frames_def resetKeybCmd_def readIdCmd_def
          diagnosticCmd_def split: option.splits)
  next
    case 2
    then show ?thesis
      by (simp add: sendPS2byte_eq cmdResponse_def frames_def resetKeybCmd_def readIdCmd_def
          diagnosticCmd_def split: option.splits)
  next
    case 3
    then show ?thesis
      by (simp add: sendPS2byte_eq cmdResponse_def frames_def resetKeybCmd_def readIdCmd_def
          diagnosticCmd_def split: option.splits)
  next
    case 4
    then show ?thesis
      by (simp add: cmdResponse_def frames_def)
  qed
qed

lemma busByte_idle:
  "((if dataLine d = HIGH then nClk_Data else 0) OR (if clkLine c = HIGH then Clk_nData else 0) =
      Clk_Data) = (dataLine d = HIGH \<and> clkLine c = HIGH)"
  by (simp add: nClk_Data_def Clk_nData_def Clk_Data_def)

lemma frames_append: "frames (xs @ ys) = frames xs @ frames ys"
  by (simp add: frames_def)

lemma parsePS2cmd_staged:
  "parsePS2cmd irqs s =
     do {
       (rxByte, s) \<leftarrow> readPS2cmd s;
       let s = s\<lparr>PS2cmd := rxByte\<rparr>;
       s \<leftarrow> sendPS2byte ackResponse ackResponseDelay s;
       let s = s\<lparr>PS2cmdReady := False\<rparr>;
       let s = emit [DelayMicroseconds 350] s;
       let s = fold PS2clk_change_isr irqs s;
       s \<leftarrow> (if \<not> PS2cmdReady s then
               do {
                 let s = emit [DelayMicroseconds 650] s;
                 (bus, s) \<leftarrow> readPS2bus s;
                 s \<leftarrow> (if bus = Clk_Data then respondToCommand s else Some s);
                 storePayload s
               }
             else Some s);
       Some (s\<lparr>lastPS2cmd := PS2cmd s\<rparr>)
     }"
  by (simp only: parsePS2cmd_def respondToCommand_def storePayload_def)

lemma respondToCommand_eq:
  "respondToCommand s =
   (case idleWaits (length (cmdResponse (PS2cmd s))) (pins s) of
      None \<Rightarrow> None
    | Some r \<Rightarrow> Some (s\<lparr>pins := r, wire := wire s @ frames (cmdResponse (PS2cmd s))\<rparr>))"
  unfolding respondToCommand_def by (rule responses_eq)

lemma storePayload_eq:
  "storePayload s =
   (case idleWaits (length (payloadResponse (lastPS2cmd s) (PS2cmd s))) (pins s) of
      None \<Rightarrow> None
    | Some r \<Rightarrow>
        Some (s\<lparr>repeatRate := (if lastPS2cmd s = repeatRateCmd then PS2cmd s else repeatRate s),
                keyboardStatus :=
                  (if lastPS2cmd s = setStatusCmd then PS2cmd s else keyboardStatus s),
                setScanCodeVal :=
                  (if lastPS2cmd s = set_getScancode then PS2cmd s else setScanCodeVal s),
                pins := r,
                wire := wire s @ frames (payloadResponse (lastPS2cmd s) (PS2cmd s))\<rparr>))"
proof -
  consider "lastPS2cmd s = repeatRateCmd" | "lastPS2cmd s = setStatusCmd"
    | "lastPS2cmd s = set_getScancode" "PS2cmd s = 0"
    | "lastPS2cmd s = set_getScancode" "PS2cmd s \<noteq> 0"
    | "lastPS2cmd s \<noteq> repeatRateCmd" "lastPS2cmd s \<noteq> setStatusCmd"
      "lastPS2cmd s \<noteq> set_getScancode"
    by blast
  then show ?thesis
  proof cases
    case 1
    then show ?thesis
      by (simp add: storePayload_def payloadResponse_def frames_def repeatRateCmd_def
          setStatusCmd_def set_getScancode_def)
  next
    case 2
    then show ?thesis
      by (simp add: storePayload_def payloadResponse_def frames_def repeatRateCmd_def
          setStatusCmd_def set_getScancode_def)
  next
    case 3
    then show ?thesis
      by (simp add: storePayload_def payloadResponse_def frames_def repeatRateCmd_def
          setStatusCmd_def set_getScancode_def sendPS2byte_eq split: option.splits)
  next
    case 4
    then show ?thesis
      by (simp add: storePayload_def payloadResponse_def frames_def repeatRateCmd_def
          setStatusCmd_def set_getScancode_def)
  next
    case 5
    then show ?thesis
      by (simp add: storePayload_def payloadResponse_def frames_def)
  qed
qed

lemma parse_head:
  assumes "pins s = frame @ rest" and "hostSends frame B" and "idleWait rest = Some r1"
  shows "parsePS2cmd irqs s =
     Option.bind
       (let s3 = s\<lparr>PS2cmd := B, PS2cmdReady := (\<exists>e\<in>set irqs. hostRequest e),
                    intrTestPin := (if irqs = [] then intrTestPin s else edgeClk (last irqs)),
                    pins := r1,
                    wire := wire s @ rxActions @
                      DelayMicroseconds ackResponseDelay # PS2frame ackResponse @
                      [DelayMicroseconds 350]\<rparr>
        in if \<not> PS2cmdReady s3 then
             do {
               let s = emit [DelayMicroseconds 650] s3;
               (bus, s) \<leftarrow> readPS2bus s;
               s \<leftarrow> (if bus = Clk_Data then respondToCommand s else Some s);
               storePayload s
             }
           else Some s3)
       (\<lambda>s. Some (s\<lparr>lastPS2cmd := PS2cmd s\<rparr>))"
proof -
  have rd: "readPS2cmd s = Some (B, s\<lparr>pins := rest, wire := wire s @ rxActions\<rparr>)"
    by (rule readPS2cmd_hostSends [OF assms(1,2)])
  have ack: "sendPS2byte ackResponse ackResponseDelay
       (s\<lparr>pins := rest, wire := wire s @ rxActions, PS2cmd := B\<rparr>) =
     Some (s\<lparr>pins := r1, wire := wire s @ rxActions @
             DelayMicroseconds ackResponseDelay # PS2frame ackResponse, PS2cmd := B\<rparr>)"
    by (simp add: sendPS2byte_eq assms(3))
  have st: "fold PS2clk_change_isr irqs
       (emit [DelayMicroseconds 350]
         (s\<lparr>pins := r1, wire := wire s @ rxActions @
             DelayMicroseconds ackResponseDelay # PS2frame ackResponse, PS2cmd := B,
             PS2cmdReady := False\<rparr>)) =
     s\<lparr>PS2cmd := B, PS2cmdReady := (\<exists>e\<in>set irqs. hostRequest e),
                    intrTestPin := (if irqs = [] then intrTestPin s else edgeClk (last irqs)),
                    pins := r1,
                    wire := wire s @ rxActions @
                      DelayMicroseconds ackResponseDelay # PS2frame ackResponse @
                      [DelayMicroseconds 350]\<rparr>"
    by (simp add: fold_isr emit_def)
  show ?thesis
    unfolding parsePS2cmd_staged rd
    apply (simp only: Option.bind.simps prod.case Let_def ack st)
    done
qed

lemma parse_tail_short:
  "length (pins t) < 2 \<Longrightarrow>
   do {
     let s = emit [DelayMicroseconds 650] t;
     (bus, s) \<leftarrow> readPS2bus s;
     s \<leftarrow> (if bus = Clk_Data then respondToCommand s else Some s);
     storePayload s
   } = None"
  by (cases "pins t"; cases "tl (pins t)") (simp_all add: readPS2bus_eq emit_def)

lemma parse_tail_busy:
  "pins t = d # c # r2 \<Longrightarrow> \<not> (dataLine d = HIGH \<and> clkLine c = HIGH) \<Longrightarrow>
   do {
     let s = emit [DelayMicroseconds 650] t;
     (bus, s) \<leftarrow> readPS2bus s;
     s \<leftarrow> (if bus = Clk_Data then respondToCommand s else Some s);
     storePayload s
   } = storePayload (t\<lparr>wire := wire t @ [DelayMicroseconds 650], pins := r2\<rparr>)"
  by (simp add: readPS2bus_eq emit_def busByte_idle Let_def nClk_Data_def Clk_nData_def Clk_Data_def)

lemma parse_tail_idle:
  "pins t = d # c # r2 \<Longrightarrow> dataLine d = HIGH \<and> clkLine c = HIGH \<Longrightarrow>
   do {
     let s = emit [DelayMicroseconds 650] t;
     (bus, s) \<leftarrow> readPS2bus s;
     s \<leftarrow> (if bus = Clk_Data then respondToCommand s else Some s);
     storePayload s
   } = Option.bind (respondToCommand (t\<lparr>wire := wire t @ [DelayMicroseconds 650], pins := r2\<rparr>))
         storePayload"
  by (simp add: readPS2bus_eq emit_def busByte_idle Let_def nClk_Data_def Clk_nData_def Clk_Data_def)

lemma parse_head_flag:
  assumes "pins s = frame @ rest" and "hostSends frame B" and "idleWait rest = Some r1"
    and "\<exists>e\<in>set irqs. hostRequest e"
  shows "parsePS2cmd irqs s = Some ((settled B irqs r1 s)\<lparr>lastPS2cmd := B\<rparr>)"
  unfolding parse_head [OF assms(1-3)] using assms(4)
  by (simp add: settled_def)

lemma parse_head_clear:
  assumes "pins s = frame @ rest" and "hostSends frame B" and "idleWait rest = Some r1"
    and "\<not> (\<exists>e\<in>set irqs. hostRequest e)"
  shows "parsePS2cmd irqs s =
     Option.bind
       (do {
          let s = emit [DelayMicroseconds 650] (settled B irqs r1 s);
          (bus, s) \<leftarrow> readPS2bus s;
          s \<leftarrow> (if bus = Clk_Data then respondToCommand s else Some s);
          storePayload s
        })
       (\<lambda>s. Some (s\<lparr>lastPS2cmd := PS2cmd s\<rparr>))"
proof -
  have f: "PS2cmdReady (settled B irqs r1 s) = False"
    using assms(4) by (simp add: settled_def)
  show ?thesis
    unfolding parse_head [OF assms(1-3)] settled_def [symmetric]
    by (simp only: Let_def [of "settled B irqs r1 s"] f not_False_eq_True if_True)
qed

lemma settled_sel:
  "PS2cmd (settled B irqs r1 s) = B"
  "lastPS2cmd (settled B irqs r1 s) = lastPS2cmd s"
  "pins (settled B irqs r1 s) = r1"
  "repeatRate (settled B irqs r1 s) = repeatRate s"
  "keyboardStatus (settled B irqs r1 s) = keyboardStatus s"
  "setScanCodeVal (settled B irqs r1 s) = setScanCodeVal s"
  "PS2cmdReady (settled B irqs r1 s) = (\<exists>e\<in>set irqs. hostRequest e)"
  by (simp_all add: settled_def)

lemma busy_case:
  "Option.bind
            (storePayload (t
                 \<lparr>wire := wire t @ [DelayMicroseconds 650], pins := r2\<rparr>))
            (\<lambda>s. Some (s\<lparr>lastPS2cmd := PS2cmd s\<rparr>)) =
   (case idleWaits (length (payloadResponse (lastPS2cmd t) (PS2cmd t))) r2 of
                    None \<Rightarrow> None
                  | Some r \<Rightarrow>
                      Some (t
                        \<lparr>repeatRate :=
                           (if lastPS2cmd t = repeatRateCmd then PS2cmd t else repeatRate t),
                         keyboardStatus :=
                           (if lastPS2cmd t = setStatusCmd then PS2cmd t else keyboardStatus t),
                         setScanCodeVal :=
                           (if lastPS2cmd t = set_getScancode then PS2cmd t else setScanCodeVal t),
                         lastPS2cmd := PS2cmd t, pins := r,
                         wire := wire t @
                           DelayMicroseconds 650 # frames (payloadResponse (lastPS2cmd t) (PS2cmd t))\<rparr>))"
  by (simp add: storePayload_eq split: option.splits split del: if_split cong: if_cong)

lemma idle_case:
  "Option.bind
     (Option.bind
        (respondToCommand (t\<lparr>wire := wire t @ [DelayMicroseconds 650], pins := r2\<rparr>))
        storePayload)
     (\<lambda>s. Some (s\<lparr>lastPS2cmd := PS2cmd s\<rparr>)) =
   (case idleWaits
           (length (cmdResponse (PS2cmd t) @ payloadResponse (lastPS2cmd t) (PS2cmd t))) r2 of
      None \<Rightarrow> None
    | Some r \<Rightarrow>
        Some (t\<lparr>repeatRate :=
                  (if lastPS2cmd t = repeatRateCmd then PS2cmd t else repeatRate t),
                keyboardStatus :=
                  (if lastPS2cmd t = setStatusCmd then PS2cmd t else keyboardStatus t),
                setScanCodeVal :=
                  (if lastPS2cmd t = set_getScancode then PS2cmd t else setScanCodeVal t),
                lastPS2cmd := PS2cmd t, pins := r,
                wire := wire t @
                  DelayMicroseconds 650 #
                  frames (cmdResponse (PS2cmd t) @ payloadResponse (lastPS2cmd t) (PS2cmd t))\<rparr>))"
  by (simp add: respondToCommand_eq storePayload_eq idleWaits_add frames_append
      split: option.splits split del: if_split cong: if_cong)

lemma parsePS2cmd_eq:
  assumes "pins s = frame @ rest" and "hostSends frame B" and "idleWait rest = Some r1"
  shows "parsePS2cmd irqs s =
     (if \<exists>e\<in>set irqs. hostRequest e
      then Some ((settled B irqs r1 s)\<lparr>lastPS2cmd := B\<rparr>)
      else
        (case r1 of
           d # c # r2 \<Rightarrow>
             (let resp =
                    (if dataLine d = HIGH \<and> clkLine c = HIGH then cmdResponse B else []) @
                    payloadResponse (lastPS2cmd s) B
              in (case idleWaits (length resp) r2 of
                    None \<Rightarrow> None
                  | Some r \<Rightarrow>
                      Some ((settled B irqs r1 s)
                        \<lparr>repeatRate :=
                           (if lastPS2cmd s = repeatRateCmd then B else repeatRate s),
                         keyboardStatus :=
                           (if lastPS2cmd s = setStatusCmd then B else keyboardStatus s),
                         setScanCodeVal :=
                           (if lastPS2cmd s = set_getScancode then B else setScanCodeVal s),
                         lastPS2cmd := B, pins := r,
                         wire := wire (settled B irqs r1 s) @
                           DelayMicroseconds 650 # frames resp\<rparr>)))
         | _ \<Rightarrow> None))"
proof (cases "\<exists>e\<in>set irqs. hostRequest e")
  case True
  then show ?thesis by (simp add: parse_head_flag [OF assms])
next
  case False
  note head = parse_head_clear [OF assms False]
  show ?thesis
  proof (cases "length r1 < 2")
    case True
    then have "length (pins (settled B irqs r1 s)) < 2" by (simp add: settled_sel)
    note parse_tail_short [OF this]
    moreover from True have "(case r1 of d # c # r2 \<Rightarrow> Some (f d c r2) | _ \<Rightarrow> None) = None" for f :: "lines \<Rightarrow> lines \<Rightarrow> lines list \<Rightarrow> device"
      by (cases r1; cases "tl r1") simp_all
    ultimately show ?thesis
      unfolding head using False True
      by (cases r1; cases "tl r1") simp_all
  next
    case long: False
    then obtain d c r2 where r1: "r1 = d # c # r2"
      by (cases r1; cases "tl r1") auto
    have p: "pins (settled B irqs r1 s) = d # c # r2" by (simp add: settled_sel r1)
    show ?thesis
    proof (cases "dataLine d = HIGH \<and> clkLine c = HIGH")
      case True
      have "parsePS2cmd irqs s =
          Option.bind
            (Option.bind
              (respondToCommand ((settled B irqs r1 s)
                 \<lparr>wire := wire (settled B irqs r1 s) @ [DelayMicroseconds 650], pins := r2\<rparr>))
              storePayload)
            (\<lambda>s. Some (s\<lparr>lastPS2cmd := PS2cmd s\<rparr>))"
        by (simp only: head parse_tail_idle [OF p True])
      also note idle_case
      finally show ?thesis
        using False True
        by (simp add: r1 settled_sel Let_def split: option.splits split del: if_split cong: if_cong)
    next
      case busy: False
      have "parsePS2cmd irqs s =
          Option.bind
            (storePayload ((settled B irqs r1 s)
                 \<lparr>wire := wire (settled B irqs r1 s) @ [DelayMicroseconds 650], pins := r2\<rparr>))
            (\<lambda>s. Some (s\<lparr>lastPS2cmd := PS2cmd s\<rparr>))"
        by (simp only: head parse_tail_busy [OF p busy])
      also note busy_case
      finally have b: "parsePS2cmd irqs s = (case idleWaits
           (length (payloadResponse (lastPS2cmd (settled B irqs r1 s))
              (PS2cmd (settled B irqs r1 s)))) r2 of
          None \<Rightarrow> None
        | Some r \<Rightarrow>
            Some ((settled B irqs r1 s)
              \<lparr>repeatRate :=
                 (if lastPS2cmd (settled B irqs r1 s) = repeatRateCmd
                  then PS2cmd (settled B irqs r1 s) else repeatRate (settled B irqs r1 s)),
               keyboardStatus :=
                 (if lastPS2cmd (settled B irqs r1 s) = setStatusCmd
                  then PS2cmd (settled B irqs r1 s) else keyboardStatus (settled B irqs r1 s)),
               setScanCodeVal :=
                 (if lastPS2cmd (settled B irqs r1 s) = set_getScancode
                  then PS2cmd (settled B irqs r1 s) else setScanCodeVal (settled B irqs r1 s)),
               lastPS2cmd := PS2cmd (settled B irqs r1 s), pins := r,
               wire := wire (settled B irqs r1 s) @
                 DelayMicroseconds 650 #
                 frames (payloadResponse (lastPS2cmd (settled B irqs r1 s))
                   (PS2cmd (settled B irqs r1 s)))\<rparr>))" .
      have nb: "(dataLine d = HIGH \<and> clkLine c = HIGH) = False" using busy by simp
      show ?thesis
        unfolding b using False
        by (simp add: r1 nb settled_sel Let_def split: option.splits split del: if_split
            cong: if_cong)
    qed
  qed
qed

lemma cmdResponse_reset: "cmdResponse resetKeybCmd = [(selfTestOk, keyboardResetDelay)]"
  by (simp add: cmdResponse_def resetKeybCmd_def readIdCmd_def diagnosticCmd_def)

lemma payloadResponse_nonzero: "B \<noteq> 0 \<Longrightarrow> payloadResponse c B = []"
  by (simp add: payloadResponse_def)

lemma idleWaits_1: "idleWaits (Suc 0) ps = idleWait ps"
  by (simp split: option.splits)

text \<open>
  C4. The host sends the reset command 0xFF, the device gets its acknowledgement out, no
  new request of the host is flagged during the 350 microseconds after it, and the
  re-check of the bus finds clock and data high. Then the device has sent 0xFA, and it
  sends 0xAA after the keyboard reset delay of 400000 microseconds (400 ms) and nothing
  more; it comes to an end if and only if the bus gets idle for the second frame.
\<close>

theorem parsePS2cmd_reset:
  assumes "pins s = frame @ rest" and "hostSends frame resetKeybCmd"
    and "idleWait rest = Some (d # c # r2)"
    and "dataLine d = HIGH" and "clkLine c = HIGH"
    and "\<forall>e\<in>set irqs. \<not> hostRequest e"
  shows "resetKeybCmd = 0xFF \<and> ackResponse = 0xFA \<and> selfTestOk = 0xAA \<and>
         keyboardResetDelay = 400000 \<and>
         (case parsePS2cmd irqs s of
            None \<Rightarrow> idleWait r2 = None
          | Some s' \<Rightarrow>
              idleWait r2 = Some (pins s') \<and>
              wire s' = wire s @ rxActions @
                DelayMicroseconds ackResponseDelay # PS2frame ackResponse @
                [DelayMicroseconds 350, DelayMicroseconds 650] @
                DelayMicroseconds keyboardResetDelay # PS2frame selfTestOk)"
proof -
  have nz: "resetKeybCmd \<noteq> 0" by (simp add: resetKeybCmd_def)
  have "case parsePS2cmd irqs s of
            None \<Rightarrow> idleWait r2 = None
          | Some s' \<Rightarrow>
              idleWait r2 = Some (pins s') \<and>
              wire s' = wire s @ rxActions @
                DelayMicroseconds ackResponseDelay # PS2frame ackResponse @
                [DelayMicroseconds 350, DelayMicroseconds 650] @
                DelayMicroseconds keyboardResetDelay # PS2frame selfTestOk"
    unfolding parsePS2cmd_eq [OF assms(1-3)]
    using assms(4-6)
    by (simp add: cmdResponse_reset payloadResponse_nonzero [OF nz] idleWaits_1 frames_def
        settled_def split: option.splits)
  then show ?thesis
    by (simp add: resetKeybCmd_def ackResponse_def selfTestOk_def keyboardResetDelay_def)
qed


lemma idleWait_idle: "idleWait (idle # idle # ps) = Some ps"
  by (simp add: idle_def)

lemma hostFrame_length: "length (hostFrame B) = 9"
  by (simp add: hostFrame_def)

theorem parsePS2cmd_reset_witness:
  "hostSends (hostFrame resetKeybCmd) resetKeybCmd \<and>
   idleWait [idle, idle, idle, idle, idle, idle] = Some [idle, idle, idle, idle] \<and>
   dataLine idle = HIGH \<and> clkLine idle = HIGH \<and>
   idleWait [idle, idle] = Some [] \<and>
   (case parsePS2cmd [] (dev0\<lparr>pins := hostFrame resetKeybCmd @ [idle, idle, idle, idle, idle, idle]\<rparr>) of
      None \<Rightarrow> False
    | Some s' \<Rightarrow>
        pins s' = [] \<and>
        wire s' = rxActions @
          DelayMicroseconds 700 # PS2frame 0xFA @
          [DelayMicroseconds 350, DelayMicroseconds 650] @
          DelayMicroseconds 400000 # PS2frame 0xAA)"
proof -
  have p: "pins (dev0\<lparr>pins := hostFrame resetKeybCmd @ [idle, idle, idle, idle, idle, idle]\<rparr>) =
      hostFrame resetKeybCmd @ [idle, idle, idle, idle, idle, idle]"
    by simp
  have a: "idleWait [idle, idle, idle, idle, idle, idle] = Some (idle # idle # [idle, idle])"
    by (simp add: idle_def)
  have l: "dataLine idle = HIGH" "clkLine idle = HIGH" by (simp_all add: idle_def)
  have q: "\<forall>e\<in>set []. \<not> hostRequest e" by simp
  have w: "idleWait [idle, idle] = Some []" by (simp add: idle_def)
  show ?thesis
    using parsePS2cmd_reset [OF p hostSends_hostFrame a l q] a l w hostSends_hostFrame
    by (simp add: dev0_def ackResponseDelay_def idle_def split: option.splits)
qed

text \<open>
  C3, as the code has it. Whatever byte the host sends, \<^verbatim>\<open>parsePS2cmd\<close> sends the
  acknowledgement 0xFA right after receiving it; the resend command 0xFE is no exception,
  although the comments of the source say so.
\<close>

theorem parsePS2cmd_acknowledges_every_byte:
  assumes "pins s = frame @ rest" and "hostSends frame B" and "idleWait rest = Some r1"
    and "parsePS2cmd irqs s = Some s'"
  shows "\<exists>more. wire s' = wire s @ rxActions @
           DelayMicroseconds ackResponseDelay # PS2frame 0xFA @ more"
  using assms(4) unfolding parsePS2cmd_eq [OF assms(1-3)]
  by (auto simp: settled_def Let_def ackResponse_def split: if_splits list.splits option.splits)

theorem parsePS2cmd_acknowledges_every_byte_witness:
  "resendCmd = 0xFE \<and> hostSends (hostFrame resendCmd) resendCmd \<and>
   idleWait [idle, idle, idle, idle] = Some [idle, idle] \<and>
   parsePS2cmd [] (dev0\<lparr>pins := hostFrame resendCmd @ [idle, idle, idle, idle]\<rparr>) =
     Some (dev0\<lparr>PS2cmd := 0xFE, lastPS2cmd := 0xFE, pins := [],
             wire := rxActions @ DelayMicroseconds 700 # PS2frame 0xFA @
               [DelayMicroseconds 350, DelayMicroseconds 650]\<rparr>) \<and>
   (\<exists>more. wire (dev0\<lparr>PS2cmd := 0xFE, lastPS2cmd := 0xFE, pins := [],
             wire := rxActions @ DelayMicroseconds 700 # PS2frame 0xFA @
               [DelayMicroseconds 350, DelayMicroseconds 650]\<rparr>) =
      wire (dev0\<lparr>pins := hostFrame resendCmd @ [idle, idle, idle, idle]\<rparr>) @ rxActions @
           DelayMicroseconds ackResponseDelay # PS2frame 0xFA @ more)"
proof -
  have p: "pins (dev0\<lparr>pins := hostFrame resendCmd @ [idle, idle, idle, idle]\<rparr>) =
      hostFrame resendCmd @ [idle, idle, idle, idle]"
    by simp
  have a: "idleWait [idle, idle, idle, idle] = Some [idle, idle]"
    by (simp add: idle_def)
  have c: "cmdResponse 0xFE = []" "payloadResponse c 0xFE = []" for c
    by (simp_all add: cmdResponse_def payloadResponse_def resetKeybCmd_def
        readIdCmd_def diagnosticCmd_def)
  have e: "parsePS2cmd [] (dev0\<lparr>pins := hostFrame resendCmd @ [idle, idle, idle, idle]\<rparr>) =
     Some (dev0\<lparr>PS2cmd := 0xFE, lastPS2cmd := 0xFE, pins := [],
             wire := rxActions @ DelayMicroseconds 700 # PS2frame 0xFA @
               [DelayMicroseconds 350, DelayMicroseconds 650]\<rparr>)"
    unfolding parsePS2cmd_eq [OF p hostSends_hostFrame a]
    by (simp add: c settled_def frames_def dev0_def resendCmd_def ackResponse_def idle_def
        ackResponseDelay_def repeatRateCmd_def setStatusCmd_def set_getScancode_def)
  show ?thesis
    using parsePS2cmd_acknowledges_every_byte [OF p hostSends_hostFrame a e] e a
      hostSends_hostFrame
    by (simp add: resendCmd_def idle_def)
qed


lemma hostRequest_requestEdge: "hostRequest requestEdge"
  by (simp add: hostRequest_def requestEdge_def)

text \<open>
  C5, as stated, fails: the previous command is 0xF0, the host sends the byte 0, and the
  edge handler flags a new request of the host during the 350 microseconds after the
  acknowledgement. The byte is neither stored as the scan code set nor answered with 0x41.
\<close>

theorem parsePS2cmd_payload_not_stored:
  "lastPS2cmd (dev0\<lparr>lastPS2cmd := set_getScancode, setScanCodeVal := 2,
      pins := hostFrame 0 @ [idle, idle]\<rparr>) = 0xF0 \<and>
   hostSends (hostFrame 0) 0 \<and>
   parsePS2cmd [requestEdge]
     (dev0\<lparr>lastPS2cmd := set_getScancode, setScanCodeVal := 2,
         pins := hostFrame 0 @ [idle, idle]\<rparr>) =
   Some (dev0\<lparr>PS2cmd := 0, lastPS2cmd := 0, setScanCodeVal := 2, PS2cmdReady := True,
           intrTestPin := HIGH, pins := [],
           wire := rxActions @ DelayMicroseconds 700 # PS2frame 0xFA @
             [DelayMicroseconds 350]\<rparr>)"
proof -
  have p: "pins (dev0\<lparr>lastPS2cmd := set_getScancode, setScanCodeVal := 2,
      pins := hostFrame 0 @ [idle, idle]\<rparr>) = hostFrame 0 @ [idle, idle]"
    by simp
  have a: "idleWait [idle, idle] = Some []" by (simp add: idle_def)
  have e: "parsePS2cmd [requestEdge]
     (dev0\<lparr>lastPS2cmd := set_getScancode, setScanCodeVal := 2,
         pins := hostFrame 0 @ [idle, idle]\<rparr>) =
   Some (dev0\<lparr>PS2cmd := 0, lastPS2cmd := 0, setScanCodeVal := 2, PS2cmdReady := True,
           intrTestPin := HIGH, pins := [],
           wire := rxActions @ DelayMicroseconds 700 # PS2frame 0xFA @
             [DelayMicroseconds 350]\<rparr>)"
    unfolding parsePS2cmd_eq [OF p hostSends_hostFrame a]
    by (simp add: hostRequest_def settled_def dev0_def ackResponse_def
        ackResponseDelay_def requestEdge_def)
  show ?thesis using e hostSends_hostFrame by (simp add: set_getScancode_def)
qed

lemma cmdResponse_0: "cmdResponse 0 = []"
  by (simp add: cmdResponse_def resetKeybCmd_def readIdCmd_def diagnosticCmd_def)

text \<open>
  C5, amended. The previous command is 0xF0, the host sends the byte \<open>B\<close>, the device gets
  its acknowledgement out and no new request of the host is flagged during the 350
  microseconds after it. Then a call that returns has stored \<open>B\<close> as the scan code set;
  for \<open>B = 0\<close> the device sends 0x41 after the acknowledgement and nothing more, and the
  call returns if and only if the bus gets idle for that frame; for other \<open>B\<close> the call
  returns unless a data response to \<open>B\<close> is due and the bus does not get idle for it.
\<close>

theorem parsePS2cmd_scan_code_set:
  assumes "lastPS2cmd s = set_getScancode" and "pins s = frame @ rest"
    and "hostSends frame B" and "idleWait rest = Some (d # c # r2)"
    and "\<forall>e\<in>set irqs. \<not> hostRequest e"
  shows "set_getScancode = 0xF0 \<and> scanCodeVal = 0x41 \<and>
    (\<forall>s'. parsePS2cmd irqs s = Some s' \<longrightarrow> setScanCodeVal s' = B) \<and>
    (B = 0 \<longrightarrow>
       (case parsePS2cmd irqs s of
          None \<Rightarrow> idleWait r2 = None
        | Some s' \<Rightarrow>
            idleWait r2 = Some (pins s') \<and>
            wire s' = wire s @ rxActions @
              DelayMicroseconds ackResponseDelay # PS2frame ackResponse @
              [DelayMicroseconds 350, DelayMicroseconds 650] @
              DelayMicroseconds PS2cmdResponseDelay # PS2frame scanCodeVal)) \<and>
    (B \<noteq> 0 \<longrightarrow>
       (parsePS2cmd irqs s = None) =
       (idleWaits (length (if dataLine d = HIGH \<and> clkLine c = HIGH
                           then cmdResponse B else [])) r2 = None))"
proof -
  note eq = parsePS2cmd_eq [OF assms(2-4), of irqs]
  have 1: "\<forall>s'. parsePS2cmd irqs s = Some s' \<longrightarrow> setScanCodeVal s' = B"
    unfolding eq using assms(1,5)
    by (auto simp: Let_def split: option.splits)
  have 2: "case parsePS2cmd irqs s of
          None \<Rightarrow> idleWait r2 = None
        | Some s' \<Rightarrow>
            idleWait r2 = Some (pins s') \<and>
            wire s' = wire s @ rxActions @
              DelayMicroseconds ackResponseDelay # PS2frame ackResponse @
              [DelayMicroseconds 350, DelayMicroseconds 650] @
              DelayMicroseconds PS2cmdResponseDelay # PS2frame scanCodeVal" if "B = 0"
    unfolding eq using assms(1,5) that
    by (simp add: cmdResponse_0 payloadResponse_def idleWaits_1 frames_def settled_def
        split: option.splits)
  have 3: "(parsePS2cmd irqs s = None) =
       (idleWaits (length (if dataLine d = HIGH \<and> clkLine c = HIGH
                           then cmdResponse B else [])) r2 = None)" if "B \<noteq> 0"
    unfolding eq using assms(1,5) that
    by (simp add: payloadResponse_nonzero Let_def split: option.splits)
  show ?thesis
    using 1 2 3 by (simp add: set_getScancode_def scanCodeVal_def)
qed

theorem parsePS2cmd_scan_code_set_witness:
  "lastPS2cmd (dev0\<lparr>lastPS2cmd := set_getScancode, setScanCodeVal := 2,
      pins := hostFrame 0 @ [idle, idle, idle, idle, idle, idle]\<rparr>) = set_getScancode \<and>
   hostSends (hostFrame 0) 0 \<and>
   idleWait [idle, idle, idle, idle, idle, idle] = Some [idle, idle, idle, idle] \<and>
   (case parsePS2cmd []
       (dev0\<lparr>lastPS2cmd := set_getScancode, setScanCodeVal := 2,
           pins := hostFrame 0 @ [idle, idle, idle, idle, idle, idle]\<rparr>) of
      None \<Rightarrow> False
    | Some s' \<Rightarrow>
        setScanCodeVal s' = 0 \<and> pins s' = [] \<and>
        wire s' = rxActions @ DelayMicroseconds 700 # PS2frame 0xFA @
          [DelayMicroseconds 350, DelayMicroseconds 650] @
          DelayMicroseconds 950 # PS2frame 0x41)"
proof -
  have l: "lastPS2cmd (dev0\<lparr>lastPS2cmd := set_getScancode, setScanCodeVal := 2,
      pins := hostFrame 0 @ [idle, idle, idle, idle, idle, idle]\<rparr>) = set_getScancode"
    by simp
  have p: "pins (dev0\<lparr>lastPS2cmd := set_getScancode, setScanCodeVal := 2,
      pins := hostFrame 0 @ [idle, idle, idle, idle, idle, idle]\<rparr>) =
      hostFrame 0 @ [idle, idle, idle, idle, idle, idle]"
    by simp
  have a: "idleWait [idle, idle, idle, idle, idle, idle] = Some (idle # idle # [idle, idle])"
    by (simp add: idle_def)
  have q: "\<forall>e\<in>set []. \<not> hostRequest e" by simp
  have w: "idleWait [idle, idle] = Some []" by (simp add: idle_def)
  show ?thesis
    using parsePS2cmd_scan_code_set [OF l p hostSends_hostFrame a q] a w hostSends_hostFrame
    by (simp add: dev0_def ackResponseDelay_def ackResponse_def PS2cmdResponseDelay_def
        split: option.splits)
qed


lemma hostSends_hostByte:
  "length frame = 9 \<Longrightarrow> hostSends frame (hostByte (frame @ rest))"
proof -
  assume len: "length frame = 9"
  have lv: "l = bitLevel (l = HIGH)" for l by (cases l) (simp_all add: bitLevel_def)
  have "map dataLine (take 8 frame) ! n =
      map (\<lambda>i. bitLevel (bit (hostByte (frame @ rest)) i)) [0..<8] ! n" if "n < 8" for n
    using that len
    by (simp add: hostByte_def bit_horner_sum_bit_word_iff lv [symmetric] del: upt_rec_numeral)
  then show ?thesis
    using len by (simp add: hostSends_def list_eq_iff_nth_eq del: upt_rec_numeral)
qed

lemma parsePS2cmd_total:
  "case parsePS2cmd irqs s of
     None \<Rightarrow> parseWait irqs (lastPS2cmd s) (pins s) = None
   | Some s' \<Rightarrow>
       parseWait irqs (lastPS2cmd s) (pins s) = Some (pins s') \<and>
       PS2cmdReady s' = (\<exists>e\<in>set irqs. hostRequest e) \<and>
       gotMakeKey s' = gotMakeKey s \<and> keyPressedTime s' = keyPressedTime s \<and>
       lastUSBkeycode s' = lastUSBkeycode s"
proof (cases "length (pins s) < 9")
  case True
  then have "parsePS2cmd irqs s = None"
    by (simp add: parsePS2cmd_staged readPS2cmd_eq)
  with True show ?thesis by (simp add: parseWait_def)
next
  case False
  define frame where "frame = take 9 (pins s)"
  define rest where "rest = drop 9 (pins s)"
  define B where "B = hostByte (pins s)"
  have p: "pins s = frame @ rest" by (simp add: frame_def rest_def)
  have len: "length frame = 9" using False by (simp add: frame_def)
  have h: "hostSends frame B" unfolding B_def p by (rule hostSends_hostByte [OF len])
  have w: "parseWait irqs (lastPS2cmd s) (pins s) =
      (case idleWait rest of
           None \<Rightarrow> None
         | Some r1 \<Rightarrow>
             if \<exists>e\<in>set irqs. hostRequest e then Some r1
             else
               (case r1 of
                  d # c # r2 \<Rightarrow>
                    idleWaits
                      (length ((if dataLine d = HIGH \<and> clkLine c = HIGH
                                then cmdResponse B else []) @
                               payloadResponse (lastPS2cmd s) B)) r2
                | _ \<Rightarrow> None))"
    using False by (simp only: parseWait_def rest_def B_def if_False)
  show ?thesis
  proof (cases "idleWait rest")
    case None
    then have "parsePS2cmd irqs s = None"
      by (simp add: parsePS2cmd_staged readPS2cmd_hostSends [OF p h] sendPS2byte_eq)
    with None show ?thesis unfolding w by simp
  next
    case (Some r1)
    show ?thesis
      unfolding parsePS2cmd_eq [OF p h Some] w Some option.case
      by (auto simp: Let_def settled_def split: if_splits list.splits option.splits)
  qed
qed


lemma transmitted_total:
  "case transmitted bytes s of
     None \<Rightarrow> idleWaits (length bytes) (pins s) = None
   | Some s' \<Rightarrow>
       idleWaits (length bytes) (pins s) = Some (pins s') \<and> PS2cmdReady s' = PS2cmdReady s"
  by (simp add: transmitted_def split: option.splits)

lemma sendPS2scanCode_tx:
  "sendPS2scanCode T millis k makeBreak modifier s =
     transmitted (scanCodeBytes T k makeBreak modifier)
       (if modifier = 0 then noteKey millis k makeBreak s else s)"
  by (simp add: scanCodeBytes_def sendPS2scanCode_key sendPS2scanCode_modifier)

lemma sendPS2scanCode_total:
  "case sendPS2scanCode T millis k makeBreak modifier s of
     None \<Rightarrow> idleWaits (length (scanCodeBytes T k makeBreak modifier)) (pins s) = None
   | Some s' \<Rightarrow>
       idleWaits (length (scanCodeBytes T k makeBreak modifier)) (pins s) = Some (pins s') \<and>
       PS2cmdReady s' = PS2cmdReady s"
proof -
  define s1 where "s1 = (if modifier = 0 then noteKey millis k makeBreak s else s)"
  have s1: "pins s1 = pins s" "PS2cmdReady s1 = PS2cmdReady s"
    by (simp_all add: s1_def noteKey_def)
  show ?thesis
    unfolding sendPS2scanCode_tx s1_def [symmetric]
    using transmitted_total [of "scanCodeBytes T k makeBreak modifier" s1]
    by (simp add: s1 split: option.splits)
qed

lemma repeatKey_total:
  "case repeatKey T millis1 millis2 s of
     None \<Rightarrow> repeatWait T millis1 s (pins s) = None
   | Some s' \<Rightarrow>
       repeatWait T millis1 s (pins s) = Some (pins s') \<and> PS2cmdReady s' = PS2cmdReady s"
proof -
  have n: "1 + 2 * length bs = length (0xF0 # bs) + length bs" for bs :: "uint8 list"
    by simp
  show ?thesis
    unfolding repeatKey_eq repeatWait_def n idleWaits_add
    by (auto simp: transmitted_def emit_def split: option.splits)
qed

lemma usbHost_task_total:
  "case usbHost_task T evs s of
     None \<Rightarrow> idleWaits (length (taskBytes T evs)) (pins s) = None
   | Some s' \<Rightarrow>
       idleWaits (length (taskBytes T evs)) (pins s) = Some (pins s') \<and>
       PS2cmdReady s' = PS2cmdReady s"
proof (induction evs arbitrary: s)
  case Nil
  then show ?case by (simp add: taskBytes_def)
next
  case (Cons ev evs)
  have tb: "length (taskBytes T (ev # evs)) =
      length (scanCodeBytes T (evKeycode ev) (evMakeBreak ev) (evModifier ev)) +
      length (taskBytes T evs)"
    by (simp add: taskBytes_def)
  note one = sendPS2scanCode_total [where T = T and millis = "evMillis ev"
      and k = "evKeycode ev" and makeBreak = "evMakeBreak ev" and modifier = "evModifier ev"
      and s = s]
  show ?case
  proof (cases "sendPS2scanCode T (evMillis ev) (evKeycode ev) (evMakeBreak ev) (evModifier ev) s")
    case None
    with one show ?thesis
      unfolding tb idleWaits_add by (simp add: onKeyboardKey_def)
  next
    case (Some s1)
    with one Cons.IH [where s = s1] show ?thesis
      unfolding tb idleWaits_add by (simp add: onKeyboardKey_def split: option.splits)
  qed
qed

lemma loop_total:
  "case loop T es irqs millis1 millis2 evs s of
     None \<Rightarrow> loopWait T es irqs millis1 evs s = None
   | Some s' \<Rightarrow>
       loopWait T es irqs millis1 evs s = Some (pins s') \<and>
       PS2cmdReady s' =
         ((PS2cmdReady s \<or> (\<exists>e\<in>set es. hostRequest e)) \<and> (\<exists>e\<in>set irqs. hostRequest e))"
proof -
  define s0 where "s0 = fold PS2clk_change_isr es s"
  have s0: "PS2cmdReady s0 = (PS2cmdReady s \<or> (\<exists>e\<in>set es. hostRequest e))"
    "pins s0 = pins s" "lastPS2cmd s0 = lastPS2cmd s" "gotMakeKey s0 = gotMakeKey s"
    "keyPressedTime s0 = keyPressedTime s" "lastUSBkeycode s0 = lastUSBkeycode s"
    by (simp_all add: s0_def fold_isr)
  have l: "loop T es irqs millis1 millis2 evs s =
      Option.bind (if PS2cmdReady s0 then parsePS2cmd irqs s0 else Some s0)
        (\<lambda>s. Option.bind (repeatKey T millis1 millis2 s) (usbHost_task T evs))"
    by (simp only: loop_def Let_def s0_def)
  have w: "loopWait T es irqs millis1 evs s =
      Option.bind (if PS2cmdReady s0 then parseWait irqs (lastPS2cmd s0) (pins s0)
                   else Some (pins s0))
        (\<lambda>ps. Option.bind (repeatWait T millis1 s0 ps) (idleWaits (length (taskBytes T evs))))"
    by (simp only: loopWait_def s0 repeatWait_def)
  define r1 where "r1 = (if PS2cmdReady s0 then parsePS2cmd irqs s0 else Some s0)"
  define w1 where "w1 = (if PS2cmdReady s0 then parseWait irqs (lastPS2cmd s0) (pins s0)
                   else Some (pins s0))"
  have st1: "case r1 of
      None \<Rightarrow> w1 = None
    | Some s1 \<Rightarrow> w1 = Some (pins s1) \<and>
        PS2cmdReady s1 = (PS2cmdReady s0 \<and> (\<exists>e\<in>set irqs. hostRequest e)) \<and>
        gotMakeKey s1 = gotMakeKey s0 \<and> keyPressedTime s1 = keyPressedTime s0 \<and>
        lastUSBkeycode s1 = lastUSBkeycode s0"
    using parsePS2cmd_total [where irqs = irqs and s = s0]
    by (cases "PS2cmdReady s0") (simp_all add: r1_def w1_def split: option.splits)
  show ?thesis
  proof (cases r1)
    case None
    with st1 show ?thesis
      unfolding l w r1_def [symmetric] w1_def [symmetric] by simp
  next
    case (Some s1)
    with st1 have w1: "w1 = Some (pins s1)"
      and f1: "PS2cmdReady s1 = (PS2cmdReady s0 \<and> (\<exists>e\<in>set irqs. hostRequest e))"
      and k1: "gotMakeKey s1 = gotMakeKey s0" "keyPressedTime s1 = keyPressedTime s0"
        "lastUSBkeycode s1 = lastUSBkeycode s0"
      by simp_all
    have rw: "repeatWait T millis1 s0 (pins s1) = repeatWait T millis1 s1 (pins s1)"
      by (simp add: repeatWait_def k1)
    note st2 = repeatKey_total [where T = T and ?millis1.0 = millis1 and ?millis2.0 = millis2
      and s = s1]
    show ?thesis
    proof (cases "repeatKey T millis1 millis2 s1")
      case None
      with st2 show ?thesis
        unfolding l w r1_def [symmetric] w1_def [symmetric] Some w1 by (simp add: rw)
    next
      case (Some s2)
      with st2 usbHost_task_total [where T = T and evs = evs and s = s2] show ?thesis
        unfolding l w r1_def [symmetric] w1_def [symmetric] \<open>r1 = Some s1\<close> w1
        by (simp add: rw f1 s0 split: option.splits)
    qed
  qed
qed


text \<open>
  C7. A run of the edge handler leaves the flag \<^verbatim>\<open>PS2cmdReady\<close> set if it was set, and
  sets it exactly on a rising clock edge with a clock low time above 100 microseconds and
  the data line low; so does any number of runs. The key event translator, the repeat
  statement and the USB host task return exactly when the bus comes idle ahead of each of
  their frames, and leave the flag as it is. \<^verbatim>\<open>parsePS2cmd\<close> returns exactly when the
  input samples last for it, and clears the flag: after the call the flag is set only if
  the handler has set it again after the clearing. A pass of the main program that finds
  the flag set runs \<^verbatim>\<open>parsePS2cmd\<close>, one that finds it clear leaves it clear; the pass
  returns exactly when the input samples last for its three statements.
\<close>

theorem PS2cmdReady_single_writer:
  "PS2cmdReady (PS2clk_change_isr e s) = (PS2cmdReady s \<or> hostRequest e) \<and>
   PS2cmdReady (fold PS2clk_change_isr es s) =
     (PS2cmdReady s \<or> (\<exists>e\<in>set es. hostRequest e)) \<and>
   (case sendPS2scanCode T millis k makeBreak modifier s of
      None \<Rightarrow> idleWaits (length (scanCodeBytes T k makeBreak modifier)) (pins s) = None
    | Some s' \<Rightarrow>
        idleWaits (length (scanCodeBytes T k makeBreak modifier)) (pins s) = Some (pins s') \<and>
        PS2cmdReady s' = PS2cmdReady s) \<and>
   (case repeatKey T millis1 millis2 s of
      None \<Rightarrow> repeatWait T millis1 s (pins s) = None
    | Some s' \<Rightarrow>
        repeatWait T millis1 s (pins s) = Some (pins s') \<and> PS2cmdReady s' = PS2cmdReady s) \<and>
   (case usbHost_task T evs s of
      None \<Rightarrow> idleWaits (length (taskBytes T evs)) (pins s) = None
    | Some s' \<Rightarrow>
        idleWaits (length (taskBytes T evs)) (pins s) = Some (pins s') \<and>
        PS2cmdReady s' = PS2cmdReady s) \<and>
   (case parsePS2cmd irqs s of
      None \<Rightarrow> parseWait irqs (lastPS2cmd s) (pins s) = None
    | Some s' \<Rightarrow>
        parseWait irqs (lastPS2cmd s) (pins s) = Some (pins s') \<and>
        PS2cmdReady s' = (\<exists>e\<in>set irqs. hostRequest e)) \<and>
   (case loop T es irqs millis1 millis2 evs s of
      None \<Rightarrow> loopWait T es irqs millis1 evs s = None
    | Some s' \<Rightarrow>
        loopWait T es irqs millis1 evs s = Some (pins s') \<and>
        PS2cmdReady s' =
          ((PS2cmdReady s \<or> (\<exists>e\<in>set es. hostRequest e)) \<and>
           (\<exists>e\<in>set irqs. hostRequest e)))"
proof -
  have 1: "PS2cmdReady (PS2clk_change_isr e s) = (PS2cmdReady s \<or> hostRequest e)"
    by (simp add: isr_eq)
  have 2: "PS2cmdReady (fold PS2clk_change_isr es s) =
     (PS2cmdReady s \<or> (\<exists>e\<in>set es. hostRequest e))"
    by (simp add: fold_isr)
  have 6: "case parsePS2cmd irqs s of
      None \<Rightarrow> parseWait irqs (lastPS2cmd s) (pins s) = None
    | Some s' \<Rightarrow>
        parseWait irqs (lastPS2cmd s) (pins s) = Some (pins s') \<and>
        PS2cmdReady s' = (\<exists>e\<in>set irqs. hostRequest e)"
    using parsePS2cmd_total [where irqs = irqs and s = s] by (simp split: option.splits)
  show ?thesis
    using 1 2 sendPS2scanCode_total repeatKey_total usbHost_task_total 6 loop_total
    by (intro conjI)
qed

theorem PS2cmdReady_single_writer_witness:
  "hostRequest requestEdge \<and>
   PS2cmdReady (PS2clk_change_isr requestEdge dev0) \<and>
   \<not> PS2cmdReady (PS2clk_change_isr (requestEdge\<lparr>edgeTimer := 100\<rparr>) dev0) \<and>
   \<not> PS2cmdReady (PS2clk_change_isr (requestEdge\<lparr>edgeData := HIGH\<rparr>) dev0) \<and>
   \<not> PS2cmdReady (PS2clk_change_isr (requestEdge\<lparr>edgeClk := LOW\<rparr>) dev0) \<and>
   PS2cmdReady (PS2clk_change_isr (requestEdge\<lparr>edgeClk := LOW\<rparr>)
     (dev0\<lparr>PS2cmdReady := True\<rparr>)) \<and>
   (case parsePS2cmd []
       (dev0\<lparr>PS2cmdReady := True, pins := hostFrame 0xED @ replicate 4 idle\<rparr>) of
      None \<Rightarrow> False
    | Some s' \<Rightarrow> \<not> PS2cmdReady s' \<and> pins s' = []) \<and>
   (case parsePS2cmd [requestEdge]
       (dev0\<lparr>PS2cmdReady := True, pins := hostFrame 0xED @ replicate 4 idle\<rparr>) of
      None \<Rightarrow> False
    | Some s' \<Rightarrow> PS2cmdReady s' \<and> pins s' = [idle, idle]) \<and>
   (case loop T0 [requestEdge] [] 0 0 [] (dev0\<lparr>pins := hostFrame 0xED @ replicate 4 idle\<rparr>) of
      None \<Rightarrow> False
    | Some s' \<Rightarrow> \<not> PS2cmdReady s' \<and> pins s' = []) \<and>
   (case loop T0 [requestEdge\<lparr>edgeTimer := 100\<rparr>] [] 0 0 []
       (dev0\<lparr>pins := hostFrame 0xED @ replicate 4 idle\<rparr>) of
      None \<Rightarrow> False
    | Some s' \<Rightarrow> \<not> PS2cmdReady s' \<and> pins s' = hostFrame 0xED @ replicate 4 idle) \<and>
   parsePS2cmd [] (dev0\<lparr>PS2cmdReady := True, pins := hostFrame 0xED\<rparr>) = None"
proof -
  have ps: "pins (dev0\<lparr>PS2cmdReady := True, pins := ps\<rparr>) = ps"
    "lastPS2cmd (dev0\<lparr>PS2cmdReady := True, pins := ps\<rparr>) = 0x33"
    "pins (dev0\<lparr>pins := ps\<rparr>) = ps"
    "PS2cmdReady (dev0\<lparr>pins := ps\<rparr>) = False" for ps
    by (simp_all add: dev0_def)
  have w1: "parseWait [] 0x33 (hostFrame 0xED @ replicate 4 idle) = Some []"
    by code_simp
  have w2: "parseWait [requestEdge] 0x33 (hostFrame 0xED @ replicate 4 idle) = Some [idle, idle]"
    by code_simp
  have w3: "loopWait T0 [requestEdge] [] 0 []
      (dev0\<lparr>pins := hostFrame 0xED @ replicate 4 idle\<rparr>) = Some []"
    by code_simp
  have w4: "loopWait T0 [requestEdge\<lparr>edgeTimer := 100\<rparr>] [] 0 []
      (dev0\<lparr>pins := hostFrame 0xED @ replicate 4 idle\<rparr>) =
      Some (hostFrame 0xED @ replicate 4 idle)"
    by code_simp
  have w5: "parseWait [] 0x33 (hostFrame 0xED) = None"
    by code_simp
  have r: "\<exists>e\<in>set [requestEdge]. hostRequest e" "\<not> (\<exists>e\<in>set []. hostRequest e)"
    "\<not> (\<exists>e\<in>set [requestEdge\<lparr>edgeTimer := 100\<rparr>]. hostRequest e)"
    by (simp_all add: hostRequest_def requestEdge_def)
  note a = PS2cmdReady_single_writer [where irqs = "[]"
      and s = "dev0\<lparr>PS2cmdReady := True, pins := hostFrame 0xED @ replicate 4 idle\<rparr>",
      THEN conjunct2, THEN conjunct2, THEN conjunct2, THEN conjunct2, THEN conjunct2,
      THEN conjunct1]
  note b = PS2cmdReady_single_writer [where irqs = "[requestEdge]"
      and s = "dev0\<lparr>PS2cmdReady := True, pins := hostFrame 0xED @ replicate 4 idle\<rparr>",
      THEN conjunct2, THEN conjunct2, THEN conjunct2, THEN conjunct2, THEN conjunct2,
      THEN conjunct1]
  note c = PS2cmdReady_single_writer [where T = T0 and es = "[requestEdge]" and irqs = "[]"
      and ?millis1.0 = 0 and ?millis2.0 = 0 and evs = "[]"
      and s = "dev0\<lparr>pins := hostFrame 0xED @ replicate 4 idle\<rparr>",
      THEN conjunct2, THEN conjunct2, THEN conjunct2, THEN conjunct2, THEN conjunct2,
      THEN conjunct2]
  note d = PS2cmdReady_single_writer [where T = T0 and es = "[requestEdge\<lparr>edgeTimer := 100\<rparr>]"
      and irqs = "[]" and ?millis1.0 = 0 and ?millis2.0 = 0 and evs = "[]"
      and s = "dev0\<lparr>pins := hostFrame 0xED @ replicate 4 idle\<rparr>",
      THEN conjunct2, THEN conjunct2, THEN conjunct2, THEN conjunct2, THEN conjunct2,
      THEN conjunct2]
  note e = PS2cmdReady_single_writer [where irqs = "[]"
      and s = "dev0\<lparr>PS2cmdReady := True, pins := hostFrame 0xED\<rparr>",
      THEN conjunct2, THEN conjunct2, THEN conjunct2, THEN conjunct2, THEN conjunct2,
      THEN conjunct1]
  have A: "case parsePS2cmd []
       (dev0\<lparr>PS2cmdReady := True, pins := hostFrame 0xED @ replicate 4 idle\<rparr>) of
      None \<Rightarrow> False
    | Some s' \<Rightarrow> \<not> PS2cmdReady s' \<and> pins s' = []"
    using a unfolding ps w1 by (simp split: option.splits)
  have B: "case parsePS2cmd [requestEdge]
       (dev0\<lparr>PS2cmdReady := True, pins := hostFrame 0xED @ replicate 4 idle\<rparr>) of
      None \<Rightarrow> False
    | Some s' \<Rightarrow> PS2cmdReady s' \<and> pins s' = [idle, idle]"
    using b r(1) unfolding ps w2 by (simp split: option.splits)
  have C: "case loop T0 [requestEdge] [] 0 0 [] (dev0\<lparr>pins := hostFrame 0xED @ replicate 4 idle\<rparr>) of
      None \<Rightarrow> False
    | Some s' \<Rightarrow> \<not> PS2cmdReady s' \<and> pins s' = []"
    using c unfolding w3 by (simp split: option.splits)
  have D: "case loop T0 [requestEdge\<lparr>edgeTimer := 100\<rparr>] [] 0 0 []
       (dev0\<lparr>pins := hostFrame 0xED @ replicate 4 idle\<rparr>) of
      None \<Rightarrow> False
    | Some s' \<Rightarrow> \<not> PS2cmdReady s' \<and> pins s' = hostFrame 0xED @ replicate 4 idle"
    using d r(3) unfolding w4 ps by (simp split: option.splits)
  have E: "parsePS2cmd [] (dev0\<lparr>PS2cmdReady := True, pins := hostFrame 0xED\<rparr>) = None"
    using e unfolding ps w5 by (simp split: option.splits)
  show ?thesis
    using A B C D E
      PS2cmdReady_single_writer [where s = dev0 and e = requestEdge]
      PS2cmdReady_single_writer [where s = dev0 and e = "requestEdge\<lparr>edgeTimer := 100\<rparr>"]
      PS2cmdReady_single_writer [where s = dev0 and e = "requestEdge\<lparr>edgeData := HIGH\<rparr>"]
      PS2cmdReady_single_writer [where s = dev0 and e = "requestEdge\<lparr>edgeClk := LOW\<rparr>"]
      PS2cmdReady_single_writer [where s = "dev0\<lparr>PS2cmdReady := True\<rparr>"
        and e = "requestEdge\<lparr>edgeClk := LOW\<rparr>"]
    by (simp add: hostRequest_def requestEdge_def dev0_def)
qed

end
